theory Spec2Isabelle
  imports Main "HOL-Library.Sublist" "HOL-Library.AList"
begin

section \<open>The lean-gym connection (model/proofcheck/lean\_gym.py)\<close>

text \<open>
  The module defines one class, \<^verbatim>\<open>LeanGymConnection\<close>, and one context manager,
  \<^verbatim>\<open>invoke_lean\<close>. A connection starts a detached \<^verbatim>\<open>screen\<close> session that runs the
  lean-gym REPL and logs its output to a temporary file; commands are typed into the session
  with \<^verbatim>\<open>screen -X stuff\<close>, and \<^verbatim>\<open>collect\<close> reads the log file line by line until it
  has seen one answer per command.

  A Python \<^verbatim>\<open>str\<close> is modelled as a \<^typ>\<open>string\<close>: a list of \<^typ>\<open>char\<close>, each standing
  for the code point of the same number, so the model covers text whose code points are
  below 256. A Python \<^verbatim>\<open>int\<close> is an \<^typ>\<open>int\<close>.
\<close>

subsection \<open>Exceptions\<close>

text \<open>The exceptions that can leave the module's code, with their messages.\<close>

datatype error =
    ValueError string
  | OSError string
  | IndexError string
  | NotADirectoryError string

subsection \<open>Python strings\<close>

abbreviation dquote :: char where "dquote \<equiv> CHR 0x22"
abbreviation squote :: char where "squote \<equiv> CHR 0x27"
abbreviation bslash :: char where "bslash \<equiv> CHR 0x5C"
abbreviation newline :: char where "newline \<equiv> CHR 0x0A"

text \<open>
  \<^verbatim>\<open>s.replace(old, new)\<close>: every occurrence of \<open>old\<close> found scanning from the left,
  occurrences not overlapping, is replaced by \<open>new\<close>. For the empty \<open>old\<close> Python puts
  \<open>new\<close> before every character and at the end.
\<close>

function replace :: "string \<Rightarrow> string \<Rightarrow> string \<Rightarrow> string" where
  "replace old new [] = (if old = [] then new else [])"
| "replace old new (c # cs) =
     (if old = [] then new @ c # replace old new cs
      else if prefix old (c # cs) then new @ replace old new (drop (length old) (c # cs))
      else c # replace old new cs)"
  by pat_completeness auto
termination
  by (relation "measure (\<lambda>(old, new, s). length s)") auto

text \<open>\<^verbatim>\<open>sub in s\<close> for two strings: \<open>sub\<close> occurs in \<open>s\<close> as a contiguous piece.\<close>

fun contains :: "string \<Rightarrow> string \<Rightarrow> bool" where
  "contains [] sub = (sub = [])"
| "contains (c # cs) sub = (prefix sub (c # cs) \<or> contains cs sub)"

text \<open>
  Line 75, in \<^verbatim>\<open>run_tac\<close>: \<^verbatim>\<open>tactic = tactic.replace('\n', '\\n')\<close>. A newline
  becomes the two characters backslash and \<open>n\<close>.
\<close>

definition escape_newlines :: "string \<Rightarrow> string" where
  "escape_newlines tactic = replace [newline] [bslash, CHR ''n''] tactic"

text \<open>
  Line 120, in \<^verbatim>\<open>__parse_response\<close>: \<^verbatim>\<open>.replace('\\n', '\n')\<close>, applied to the text
  between the quotes of a string field. The two characters backslash and \<open>n\<close> become a
  newline.
\<close>

definition unescape_newlines :: "string \<Rightarrow> string" where
  "unescape_newlines field = replace [bslash, CHR ''n''] [newline] field"


text \<open>
  \<^verbatim>\<open>repr\<close> of a string. The quote is the single quote, unless the string has a single
  quote and no double quote. The quote and the backslash are escaped with a backslash; tab,
  newline and carriage return are written \<^verbatim>\<open>\t\<close>, \<^verbatim>\<open>\n\<close>, \<^verbatim>\<open>\r\<close>; every other
  character that is not printable (below 256: the control characters 0 to 31 and 127 to 159,
  the no-break space 160 and the soft hyphen 173) is written \<^verbatim>\<open>\xNN\<close> with two
  lower-case hexadecimal digits.
\<close>

definition hex_digit :: "nat \<Rightarrow> char" where
  "hex_digit d = ''0123456789abcdef'' ! (d mod 16)"

definition repr_char :: "char \<Rightarrow> char \<Rightarrow> string" where
  "repr_char quote ch =
     (let n = (of_char ch :: nat) in
        if ch = quote \<or> ch = bslash then [bslash, ch]
        else if ch = CHR 0x09 then [bslash, CHR ''t'']
        else if ch = newline then [bslash, CHR ''n'']
        else if ch = CHR 0x0D then [bslash, CHR ''r'']
        else if n < 32 \<or> n = 127 \<or> (128 \<le> n \<and> n \<le> 160) \<or> n = 173
          then [bslash, CHR ''x'', hex_digit (n div 16), hex_digit (n mod 16)]
        else [ch])"

definition repr_str :: "string \<Rightarrow> string" where
  "repr_str s =
     (let quote = (if squote \<in> set s \<and> dquote \<notin> set s then dquote else squote)
      in quote # concat (map (repr_char quote) s) @ [quote])"

text \<open>\<^verbatim>\<open>sep.join(xs)\<close>.\<close>

fun join :: "string \<Rightarrow> string list \<Rightarrow> string" where
  "join sep [] = []"
| "join sep [x] = x"
| "join sep (x # y # ys) = x @ sep @ join sep (y # ys)"

text \<open>
  The arguments of \<^verbatim>\<open>__send_query\<close> are lists of strings and of such lists.
  \<^verbatim>\<open>repr\<close> of a list is its elements' \<^verbatim>\<open>repr\<close>s between brackets, separated by a comma
  and a space; \<^verbatim>\<open>str\<close> of a list is its \<^verbatim>\<open>repr\<close>, \<^verbatim>\<open>str\<close> of a string is the string.
\<close>

datatype pyobj = Str string | Lst "pyobj list"

fun repr :: "pyobj \<Rightarrow> string" where
  "repr (Str s) = repr_str s"
| "repr (Lst xs) = ''['' @ join '', '' (map repr xs) @ '']''"

fun str :: "pyobj \<Rightarrow> string" where
  "str (Str s) = s"
| "str (Lst xs) = repr (Lst xs)"

text \<open>
  The decimal digits of a natural number, and the decimal text of an integer: the digits,
  after a minus sign when it is negative.
\<close>

fun str_nat :: "nat \<Rightarrow> string" where
  "str_nat n = (if n < 10 then [hex_digit n] else str_nat (n div 10) @ [hex_digit (n mod 10)])"

declare str_nat.simps [simp del]

definition int_text :: "int \<Rightarrow> string" where
  "int_text i = (if i < 0 then CHR ''-'' # str_nat (nat (- i)) else str_nat (nat i))"

text \<open>
  The interpreter limits the conversions between \<^verbatim>\<open>int\<close> and \<^verbatim>\<open>str\<close> in base 10: with
  the default setting (\<^verbatim>\<open>sys.get_int_max_str_digits()\<close> is 4300) a conversion of more than
  4300 digits raises \<^verbatim>\<open>ValueError\<close>. The module does not change the setting. The sign is
  not counted.
\<close>

definition max_str_digits :: nat where
  "max_str_digits = 4300"

definition in_limit :: "int \<Rightarrow> bool" where
  "in_limit i = (length (str_nat (nat \<bar>i\<bar>)) \<le> max_str_digits)"

definition str_limit_error :: error where
  "str_limit_error =
     ValueError (''Exceeds the limit ('' @ str_nat max_str_digits @
       '' digits) for integer string conversion; '' @
       ''use sys.set_int_max_str_digits() to increase the limit'')"

text \<open>
  \<^verbatim>\<open>str\<close> of an integer, and the formatting of an integer in an f-string: its decimal
  text, or the \<^verbatim>\<open>ValueError\<close> of the limit.
\<close>

definition str_int :: "int \<Rightarrow> error + string" where
  "str_int i = (if in_limit i then Inr (int_text i) else Inl str_limit_error)"

text \<open>\<^verbatim>\<open>s.split(' ')\<close>: the pieces between single spaces (an empty piece between two spaces).\<close>

fun split_space :: "string \<Rightarrow> string list" where
  "split_space [] = [[]]"
| "split_space (c # cs) =
     (if c = CHR '' '' then [] # split_space cs
      else (case split_space cs of [] \<Rightarrow> [[c]] | w # ws \<Rightarrow> (c # w) # ws))"

subsection \<open>Decoded responses\<close>

text \<open>
  The values \<^verbatim>\<open>__parse_response\<close> stores in its dictionary: \<^verbatim>\<open>None\<close>, an
  \<^verbatim>\<open>int\<close>, a \<^verbatim>\<open>str\<close> or a list of \<^verbatim>\<open>str\<close>. The dictionary itself is an
  association list in insertion order, as a Python \<^verbatim>\<open>dict\<close> keeps it:
  \<^verbatim>\<open>result[key] = v\<close> is \<^const>\<open>AList.update\<close>, which overwrites the value of a key that is
  present, in place, and appends a new key at the end.
\<close>

datatype field_value = PNone | PInt int | PStr string | PList "string list"

type_synonym response = "(string \<times> field_value) list"

subsection \<open>The response decoder\<close>

text \<open>
  The character classes of the regular expressions. The patterns are \<^verbatim>\<open>str\<close> patterns,
  so \<^verbatim>\<open>\w\<close> is Unicode-aware: a letter, a digit or numeric character, or the underscore.
  Below 256 these are the ASCII letters and digits, the underscore, and the Latin-1 letters
  and numerics listed. \<^verbatim>\<open>[0-9]\<close> is the ASCII digits only.
\<close>

definition is_digit :: "char \<Rightarrow> bool" where
  "is_digit c = (let n = (of_char c :: nat) in 48 \<le> n \<and> n \<le> 57)"

definition is_word :: "char \<Rightarrow> bool" where
  "is_word c =
     (let n = (of_char c :: nat) in
        (48 \<le> n \<and> n \<le> 57) \<or> (65 \<le> n \<and> n \<le> 90) \<or> n = 95 \<or> (97 \<le> n \<and> n \<le> 122) \<or>
        n = 0xAA \<or> n = 0xB2 \<or> n = 0xB3 \<or> n = 0xB5 \<or> n = 0xB9 \<or> n = 0xBA \<or>
        (0xBC \<le> n \<and> n \<le> 0xBE) \<or> (0xC0 \<le> n \<and> n \<le> 0xD6) \<or>
        (0xD8 \<le> n \<and> n \<le> 0xF6) \<or> 0xF8 \<le> n)"

definition not_bracket :: "char \<Rightarrow> bool" where
  "not_bracket c = (c \<noteq> CHR ''['' \<and> c \<noteq> CHR '']'')"

definition not_dquote :: "char \<Rightarrow> bool" where
  "not_dquote c = (c \<noteq> dquote)"

text \<open>
  The value part of the pattern on line 114,
  \<^verbatim>\<open>(null|\[[^\[\]]*\]|"[^"]*")\<close>, matched at the start of \<open>s\<close>: the text of the
  group and what follows it. The three alternatives start with different characters, so at
  most one applies. A starred class is greedy and takes the longest run; the character that
  must follow it (\<^verbatim>\<open>]\<close>, \<^verbatim>\<open>"\<close>) is outside the class, so giving characters back
  cannot turn a failure into a match, and the longest run is the only one to try.
\<close>

definition match_value :: "string \<Rightarrow> (string \<times> string) option" where
  "match_value s =
     (if prefix ''null'' s then Some (''null'', drop 4 s)
      else (case s of
        [] \<Rightarrow> None
      | c # t \<Rightarrow>
          if c = CHR ''['' then
            (case dropWhile not_bracket t of
               [] \<Rightarrow> None
             | d # rest \<Rightarrow>
                 if d = CHR '']'' then Some (c # takeWhile not_bracket t @ [d], rest) else None)
          else if c = dquote then
            (case dropWhile not_dquote t of
               [] \<Rightarrow> None
             | d # rest \<Rightarrow> Some (c # takeWhile not_dquote t @ [d], rest))
          else None))"

text \<open>
  The whole pattern, \<^verbatim>\<open>"([_\w]+)":\<close> and then the value, matched at the start of \<open>s\<close>:
  the two groups and what follows the match. The key is the longest run of word characters
  (the quote that must follow is not one), and it is not empty.
\<close>

definition match_pair :: "string \<Rightarrow> (string \<times> string \<times> string) option" where
  "match_pair s =
     (case s of
        [] \<Rightarrow> None
      | c # t \<Rightarrow>
          if c = dquote \<and> takeWhile is_word t \<noteq> [] then
            (case dropWhile is_word t of
               d # e # r \<Rightarrow>
                 if d = dquote \<and> e = CHR '':'' then
                   (case match_value r of
                      None \<Rightarrow> None
                    | Some (v, rest) \<Rightarrow> Some (takeWhile is_word t, v, rest))
                 else None
             | _ \<Rightarrow> None)
          else None)"

lemma dropWhile_Cons_shorter: "dropWhile P t = d # r \<Longrightarrow> length r < length t"
proof -
  assume "dropWhile P t = d # r"
  then have "length (d # r) \<le> length t"
    using length_dropWhile_le [of P t] by simp
  then show ?thesis by simp
qed

lemma match_value_shorter: "match_value s = Some (v, rest) \<Longrightarrow> length rest < length s"
proof -
  assume m: "match_value s = Some (v, rest)"
  show ?thesis
  proof (cases "prefix ''null'' s")
    case True
    then have "length ''null'' \<le> length s" by (rule prefix_length_le)
    with m True show ?thesis by (auto simp: match_value_def)
  next
    case False
    with m show ?thesis
      by (auto simp: match_value_def split: list.splits if_splits dest!: dropWhile_Cons_shorter)
  qed
qed

lemma match_pair_shorter: "match_pair s = Some (k, v, rest) \<Longrightarrow> length rest < length s"
proof -
  assume m: "match_pair s = Some (k, v, rest)"
  then obtain c t d e r where s: "s = c # t" and dw: "dropWhile is_word t = d # e # r"
    and mv: "match_value r = Some (v, rest)"
    by (auto simp: match_pair_def split: list.splits if_splits option.splits)
  have "length (d # e # r) \<le> length t"
    using length_dropWhile_le [of is_word t] dw by simp
  moreover have "length rest < length r" using mv by (rule match_value_shorter)
  ultimately show ?thesis using s by simp
qed

text \<open>
  \<^verbatim>\<open>re.findall\<close> with the pattern of line 114: the pairs of groups of the matches found
  scanning from the left. Where the pattern matches, the scan goes on after the match (no
  match is empty); where it does not, one character further.
\<close>

function findall_pairs :: "string \<Rightarrow> (string \<times> string) list" where
  "findall_pairs [] = []"
| "findall_pairs (c # cs) =
     (case match_pair (c # cs) of
        None \<Rightarrow> findall_pairs cs
      | Some (k, v, rest) \<Rightarrow> (k, v) # findall_pairs rest)"
  by pat_completeness auto
termination
  by (relation "measure length") (auto dest: match_pair_shorter)

text \<open>
  The pattern of line 114 matches somewhere in \<open>s\<close> (\<^verbatim>\<open>re.search\<close> would find a
  match): at the start of \<open>s\<close>, or after some of its characters.
\<close>

fun has_pair :: "string \<Rightarrow> bool" where
  "has_pair [] = False"
| "has_pair (c # cs) = (match_pair (c # cs) \<noteq> None \<or> has_pair cs)"

text \<open>
  \<^verbatim>\<open>re.findall(r'"([^"]*)"', value)\<close>, line 122: the texts between successive pairs of
  double quotes. A quote with no closing quote after it starts no match.
\<close>

function findall_quoted :: "string \<Rightarrow> string list" where
  "findall_quoted [] = []"
| "findall_quoted (c # cs) =
     (if c = dquote then
        (case dropWhile not_dquote cs of
           [] \<Rightarrow> findall_quoted cs
         | d # rest \<Rightarrow> takeWhile not_dquote cs # findall_quoted rest)
      else findall_quoted cs)"
  by pat_completeness auto
termination
  by (relation "measure length") (auto dest: dropWhile_Cons_shorter)

text \<open>
  \<^verbatim>\<open>re.match(r'"[0-9]+"', value)\<close>, line 117: a quote, one digit or more, a quote, at the
  start of \<open>value\<close> (\<^verbatim>\<open>re.match\<close> does not look at what follows).
\<close>

definition match_quoted_digits :: "string \<Rightarrow> bool" where
  "match_quoted_digits v =
     (case v of
        [] \<Rightarrow> False
      | c # t \<Rightarrow>
          c = dquote \<and> takeWhile is_digit t \<noteq> [] \<and>
          (case dropWhile is_digit t of [] \<Rightarrow> False | d # _ \<Rightarrow> d = dquote))"

text \<open>\<^verbatim>\<open>value[1:-1]\<close>: without the first and the last character; empty for a shorter string.\<close>

definition slice_1_m1 :: "string \<Rightarrow> string" where
  "slice_1_m1 v = butlast (tl v)"

text \<open>
  \<^verbatim>\<open>int(s)\<close> for a string that starts with a digit. The digits at the start are counted
  first: more than \<^const>\<open>max_str_digits\<close> of them raise the \<^verbatim>\<open>ValueError\<close> of the limit,
  whatever follows them. Otherwise a string of digits only is the number they write in base
  10, and a string with another character after the digits is an invalid literal, also a
  \<^verbatim>\<open>ValueError\<close>. The only call, on line 118, is guarded by \<^const>\<open>match_quoted_digits\<close>,
  after which the argument starts with a digit and is either all digits or has a double
  quote after them, so these are the cases that arise.
\<close>

definition digit_val :: "char \<Rightarrow> nat" where
  "digit_val c = of_char c - 48"

definition decimal :: "string \<Rightarrow> nat" where
  "decimal s = foldl (\<lambda>a c. 10 * a + digit_val c) 0 s"

definition int_limit_error :: "nat \<Rightarrow> error" where
  "int_limit_error n =
     ValueError (''Exceeds the limit ('' @ str_nat max_str_digits @
       '' digits) for integer string conversion: value has '' @ str_nat n @ '' digits; '' @
       ''use sys.set_int_max_str_digits() to increase the limit'')"

definition py_int :: "string \<Rightarrow> error + int" where
  "py_int s =
     (if max_str_digits < length (takeWhile is_digit s)
        then Inl (int_limit_error (length (takeWhile is_digit s)))
      else if s \<noteq> [] \<and> list_all is_digit s then Inr (int (decimal s))
      else Inl (ValueError (''invalid literal for int() with base 10: '' @ repr_str s)))"

text \<open>
  The body of the loop of \<^verbatim>\<open>__parse_response\<close>, lines 115 to 122: the value stored for a
  matched text \<open>value\<close>. \<^verbatim>\<open>value[0]\<close> raises \<^verbatim>\<open>IndexError\<close> on the empty string.
\<close>

definition decode_value :: "string \<Rightarrow> error + field_value" where
  "decode_value v =
     (if v = ''null'' then Inr PNone
      else if match_quoted_digits v then
        (case py_int (slice_1_m1 v) of Inl e \<Rightarrow> Inl e | Inr n \<Rightarrow> Inr (PInt n))
      else (case v of
        [] \<Rightarrow> Inl (IndexError ''string index out of range'')
      | c # _ \<Rightarrow>
          if c = dquote then Inr (PStr (unescape_newlines (slice_1_m1 v)))
          else Inr (PList (findall_quoted v))))"

text \<open>
  \<^verbatim>\<open>__parse_response\<close>, lines 111 to 124: the pairs found in the line are decoded and
  stored in order; an exception of the body leaves the loop.
\<close>

fun store_pairs :: "(string \<times> string) list \<Rightarrow> response \<Rightarrow> error + response" where
  "store_pairs [] result = Inr result"
| "store_pairs ((key, v) # rest) result =
     (case decode_value v of
        Inl e \<Rightarrow> Inl e
      | Inr x \<Rightarrow> store_pairs rest (AList.update key x result))"

definition parse_response :: "string \<Rightarrow> error + response" where
  "parse_response responce = store_pairs (findall_pairs responce) []"

subsection \<open>The connection\<close>

text \<open>
  The state of a \<^verbatim>\<open>LeanGymConnection\<close>: its attributes (\<open>closed\<close>, \<open>filename\<close>,
  \<open>START\<close>, \<open>QUERY\<close>, \<open>EXIT\<close>, \<open>queries\<close>) and what it does to the world around it:
  \<^item> \<open>log\<close>: what the calls of \<^verbatim>\<open>self.__file.readline()\<close> still to come return, in order:
    a line of the log file with its newline, a piece of one that is not finished yet, or the
    empty string when nothing new is there. The REPL writes the file; the connection only
    reads it. Once the list is used up every later call returns the empty string.
  \<^item> \<open>runs\<close>: the argument lists of the calls of \<^verbatim>\<open>subprocess.run\<close>, oldest first.
  \<^item> \<open>file_open\<close>, \<open>file_exists\<close>: whether the log file is still open for reading, and
    whether it is still on disk.

  Once the constructor has started the session, the later calls of \<^verbatim>\<open>screen\<close> and the
  operations on the log file are taken to succeed: they fail only when something outside the
  program removes the executable or the file.
\<close>

record connection =
  closed :: bool
  filename :: string
  START :: "string list"
  QUERY :: "string list"
  EXIT :: "string list"
  queries :: int
  log :: "string list"
  runs :: "string list list"
  file_open :: bool
  file_exists :: bool

text \<open>
  A call returns a value or raises, and leaves the connection in a new state either way.
\<close>

type_synonym 'a result = "(error + 'a) \<times> connection"

text \<open>
  What \<^verbatim>\<open>subprocess.run(self.__START, cwd=path)\<close> does on line 37: the session is
  started; or \<^verbatim>\<open>FileNotFoundError\<close> is raised (no \<^verbatim>\<open>screen\<close> executable, or no directory
  at \<open>path\<close>); or another exception is raised (\<^verbatim>\<open>NotADirectoryError\<close> when \<open>path\<close> is
  not a directory, say).
\<close>

datatype launch = Started | FileNotFound | Raises error

text \<open>
  \<^verbatim>\<open>__init__\<close>, lines 18 to 42. \<open>n_conns\<close> is the class counter before the call, and
  the first component of the result is the counter after it; \<open>tmp\<close> is the name
  \<^verbatim>\<open>tempfile.NamedTemporaryFile\<close> gives the new file; \<open>run\<close> says what starting the
  session in a working directory does; and \<open>reads\<close> is what reading the log will return.
  The name of the session is made with an f-string from the counter (line 30), so under the
  limit of the conversion. Only \<^verbatim>\<open>FileNotFoundError\<close> is caught on line 38 and turned into
  \<^verbatim>\<open>OSError\<close>; any other exception leaves the constructor as it is.
\<close>

definition LeanGymConnection ::
  "int \<Rightarrow> string \<Rightarrow> string \<Rightarrow> (string \<Rightarrow> launch) \<Rightarrow> string list \<Rightarrow>
   int \<times> (error + connection)" where
  "LeanGymConnection n_conns path tmp run reads =
     (let n = n_conns + 1 in
      (n,
       case str_int n of
         Inl e \<Rightarrow> Inl e
       | Inr digits \<Rightarrow>
           (let screen = ''lean_repl'' @ digits;
                start = split_space (''screen -Logfile '' @ tmp @ '' -dmSL '' @ screen @
                                     '' lean --run src/repl.lean'')
            in case run path of
                 FileNotFound \<Rightarrow> Inl (OSError ''screen (terminal command) is not found'')
               | Raises e \<Rightarrow> Inl e
               | Started \<Rightarrow>
                   Inr \<lparr> closed = False, filename = tmp, START = start,
                         QUERY = split_space (''screen -S '' @ screen @ '' -X stuff''),
                         EXIT = split_space (''screen -S '' @ screen @ '' -X quit''),
                         queries = 0, log = reads, runs = [start],
                         file_open = True, file_exists = True \<rparr>)))"

text \<open>
  \<^verbatim>\<open>__send_query\<close>, lines 44 to 46: the command is rendered with \<^verbatim>\<open>str\<close>, every single
  quote of the rendering becomes a double quote, and the text and a newline are typed into
  the session.
\<close>

definition send_query :: "pyobj \<Rightarrow> connection \<Rightarrow> connection" where
  "send_query cmd c =
     (let cmd' = replace [squote] [dquote] (str cmd)
      in c\<lparr>runs := runs c @ [QUERY c @ [cmd' @ [newline]]]\<rparr>)"

abbreviation closed_error :: error where
  "closed_error \<equiv> ValueError ''connection is closed''"

text \<open>\<^verbatim>\<open>init_search\<close>, lines 48 to 60.\<close>

definition init_search :: "string \<Rightarrow> string list \<Rightarrow> connection \<Rightarrow> unit result" where
  "init_search name namespaces c =
     (if closed c then (Inl closed_error, c)
      else (Inr (),
            send_query (Lst [Str ''init_search'', Lst [Str name, Str '''']])
              (c\<lparr>queries := queries c + 1\<rparr>)))"

text \<open>
  \<^verbatim>\<open>run_tac\<close>, lines 62 to 76. The counter is incremented on line 74, before
  \<^verbatim>\<open>str(search_id)\<close> and \<^verbatim>\<open>str(tactic_state_id)\<close> are evaluated, in this order, on
  line 76: when one of them raises, the query is counted and nothing is sent.
\<close>

definition run_tac :: "int \<Rightarrow> int \<Rightarrow> string \<Rightarrow> connection \<Rightarrow> unit result" where
  "run_tac search_id tactic_state_id tactic c =
     (if closed c then (Inl closed_error, c)
      else (case str_int search_id of
              Inl e \<Rightarrow> (Inl e, c\<lparr>queries := queries c + 1\<rparr>)
            | Inr sid \<Rightarrow>
                (case str_int tactic_state_id of
                   Inl e \<Rightarrow> (Inl e, c\<lparr>queries := queries c + 1\<rparr>)
                 | Inr tid \<Rightarrow>
                     (Inr (),
                      send_query
                        (Lst [Str ''run_tac'', Lst [Str sid, Str tid, Str (escape_newlines tactic)]])
                        (c\<lparr>queries := queries c + 1\<rparr>)))))"

text \<open>\<^verbatim>\<open>clear_search\<close>, lines 78 to 89; \<^verbatim>\<open>str(search_id)\<close> as in \<^verbatim>\<open>run_tac\<close>.\<close>

definition clear_search :: "int \<Rightarrow> connection \<Rightarrow> unit result" where
  "clear_search search_id c =
     (if closed c then (Inl closed_error, c)
      else (case str_int search_id of
              Inl e \<Rightarrow> (Inl e, c\<lparr>queries := queries c + 1\<rparr>)
            | Inr sid \<Rightarrow>
                (Inr (),
                 send_query (Lst [Str ''clear_search'', Lst [Str sid]])
                   (c\<lparr>queries := queries c + 1\<rparr>))))"

text \<open>
  A line is a candidate answer when \<^verbatim>\<open>line[0] == '{'\<close> (line 106; the empty string has
  been dealt with on line 104).
\<close>

definition is_candidate :: "string \<Rightarrow> bool" where
  "is_candidate line = (case line of [] \<Rightarrow> False | ch # _ \<Rightarrow> ch = CHR ''{'')"

text \<open>
  The loop of \<^verbatim>\<open>collect\<close>, lines 102 to 108, on the reads still to come, the counter
  \<open>q\<close> and the list \<open>result\<close>: the outcome, the counter and the reads left when the loop
  ends. When the reads are used up while the counter is positive, every later
  \<^verbatim>\<open>readline\<close> returns the empty string and the loop never ends: the value is \<open>None\<close>.
  An exception of \<^verbatim>\<open>__parse_response\<close> leaves the loop before the counter is changed.
\<close>

fun collect_loop ::
  "string list \<Rightarrow> int \<Rightarrow> response list \<Rightarrow>
   ((error + response list) \<times> int \<times> string list) option" where
  "collect_loop [] q result = (if q > 0 then None else Some (Inr result, q, []))"
| "collect_loop (line # rest) q result =
     (if q > 0 then
        (if line = [] then collect_loop rest q result
         else if is_candidate line then
           (case parse_response line of
              Inl e \<Rightarrow> Some (Inl e, q, rest)
            | Inr r \<Rightarrow> collect_loop rest (q - 1) (result @ [r]))
         else collect_loop rest q result)
      else Some (Inr result, q, line # rest))"

text \<open>\<^verbatim>\<open>collect\<close>, lines 91 to 109. \<open>None\<close>: the call does not return.\<close>

definition collect :: "connection \<Rightarrow> (response list result) option" where
  "collect c =
     (if closed c then Some (Inl closed_error, c)
      else (case collect_loop (log c) (queries c) [] of
              None \<Rightarrow> None
            | Some (r, q, rest) \<Rightarrow> Some (r, c\<lparr>queries := q, log := rest\<rparr>)))"

text \<open>\<^verbatim>\<open>close\<close>, lines 126 to 138.\<close>

definition close :: "connection \<Rightarrow> unit result" where
  "close c =
     (if closed c then (Inl closed_error, c)
      else (Inr (),
            c\<lparr>closed := True, runs := runs c @ [EXIT c],
              file_open := False, file_exists := False\<rparr>))"

subsection \<open>Callers\<close>

text \<open>The three methods that send a command.\<close>

datatype command = InitSearch string "string list" | RunTac int int string | ClearSearch int

fun issue :: "command \<Rightarrow> connection \<Rightarrow> unit result" where
  "issue (InitSearch name namespaces) c = init_search name namespaces c"
| "issue (RunTac search_id tactic_state_id tactic) c = run_tac search_id tactic_state_id tactic c"
| "issue (ClearSearch search_id) c = clear_search search_id c"


text \<open>
  The public methods. A call of one returns \<^verbatim>\<open>None\<close> (the commands and \<^verbatim>\<open>close\<close>) or a
  list of responses (\<^verbatim>\<open>collect\<close>), raises, or does not return.
\<close>

datatype call = Command command | Collect | Close

fun returns_none :: "unit result \<Rightarrow> (response list option) result" where
  "returns_none (Inl e, c) = (Inl e, c)"
| "returns_none (Inr u, c) = (Inr None, c)"

fun perform :: "call \<Rightarrow> connection \<Rightarrow> ((response list option) result) option" where
  "perform (Command cmd) c = Some (returns_none (issue cmd c))"
| "perform Collect c =
     (case collect c of
        None \<Rightarrow> None
      | Some (Inl e, c') \<Rightarrow> Some (Inl e, c')
      | Some (Inr rs, c') \<Rightarrow> Some (Inr (Some rs), c'))"
| "perform Close c = Some (returns_none (close c))"

text \<open>
  Code that uses a connection through its public methods: it returns, raises an exception
  of its own, or calls a method and goes on according to what the call returned or raised
  (so it may catch the exception of a call).
\<close>

datatype block =
    Return
  | Raise error
  | Call call "error + response list option \<Rightarrow> block"

text \<open>
  Running a block on a connection: the exception that leaves the block, if any, and the
  state of the connection then. \<open>None\<close>: a call of \<^verbatim>\<open>collect\<close> does not return.
\<close>

primrec exec :: "block \<Rightarrow> connection \<Rightarrow> (error option \<times> connection) option" where
  "exec Return c = Some (None, c)"
| "exec (Raise e) c = Some (Some e, c)"
| "exec (Call f k) c =
     (case perform f c of
        None \<Rightarrow> None
      | Some (r, c') \<Rightarrow> exec (k r) c')"

text \<open>
  \<^verbatim>\<open>invoke_lean\<close>, lines 141 to 151, around the body of a \<^verbatim>\<open>with\<close> statement: the
  connection is made with the arguments given; an exception of the constructor leaves
  before the body is entered, and there is no connection then. Otherwise the body runs on
  the connection, and whether it ends or raises, \<^verbatim>\<open>finally\<close> calls \<^verbatim>\<open>close\<close>; an
  exception of that call is the one that leaves. The result is the exception that leaves
  the \<^verbatim>\<open>with\<close> statement, if any, and the connection.
\<close>

definition invoke_lean ::
  "int \<Rightarrow> string \<Rightarrow> string \<Rightarrow> (string \<Rightarrow> launch) \<Rightarrow> string list \<Rightarrow> block \<Rightarrow>
   (error option \<times> connection option) option" where
  "invoke_lean n_conns path tmp run reads body =
     (case snd (LeanGymConnection n_conns path tmp run reads) of
        Inl e \<Rightarrow> Some (Some e, None)
      | Inr connection \<Rightarrow>
          (case exec body connection of
             None \<Rightarrow> None
           | Some (r, c) \<Rightarrow>
               (case close c of
                  (Inl e, c') \<Rightarrow> Some (Some e, Some c')
                | (Inr u, c') \<Rightarrow> Some (r, Some c'))))"

text \<open>
  What holds of a connection once it is closed: \<^verbatim>\<open>close\<close> has sent the command that ends
  the session, closed the log file and removed it.
\<close>

definition closed_inv :: "connection \<Rightarrow> bool" where
  "closed_inv c = (if closed c then \<not> file_exists c \<and> \<not> file_open c \<and> EXIT c \<in> set (runs c) else True)"

subsection \<open>Response lines as the specification describes them\<close>

text \<open>
  The specification's grammar of a value (section 4.3): \<^verbatim>\<open>null\<close>, a single double-quoted
  string, or a bracketed list of double-quoted strings (here with the text that separates
  them), and the text each one stands for.
\<close>

datatype value_text = Null | Quoted string | Items string "string list"

fun render_value :: "value_text \<Rightarrow> string" where
  "render_value Null = ''null''"
| "render_value (Quoted t) = [dquote] @ t @ [dquote]"
| "render_value (Items sep xs) = ''['' @ join sep (map (\<lambda>x. [dquote] @ x @ [dquote]) xs) @ '']''"

text \<open>
  The specification's decoding rules: \<^verbatim>\<open>null\<close> is the absent value; a quoted string
  consisting only of decimal digits is an integer; any other quoted string is text, with the
  escaped newlines restored; a bracketed list is the sequence of its quoted strings.
\<close>

fun spec_decode :: "value_text \<Rightarrow> field_value" where
  "spec_decode Null = PNone"
| "spec_decode (Quoted t) =
     (if t \<noteq> [] \<and> list_all is_digit t then PInt (int (decimal t))
      else PStr (unescape_newlines t))"
| "spec_decode (Items sep xs) = PList xs"

text \<open>
  The values on which the decoder of the module follows these rules: no double quote inside
  a quoted string, no more digits than the conversion allows, and no bracket inside a list.
\<close>

fun well_formed_value :: "value_text \<Rightarrow> bool" where
  "well_formed_value Null = True"
| "well_formed_value (Quoted t) =
     (dquote \<notin> set t \<and> (if list_all is_digit t then length t \<le> max_str_digits else True))"
| "well_formed_value (Items sep xs) =
     (dquote \<notin> set sep \<and> list_all not_bracket sep \<and>
      list_all (\<lambda>x. dquote \<notin> set x \<and> list_all not_bracket x) xs)"

definition word_key :: "string \<Rightarrow> bool" where
  "word_key key = (key \<noteq> [] \<and> list_all is_word key)"

text \<open>
  A response line: the fields, each a key between double quotes, a colon and a value,
  separated by \<open>fsep\<close>, between braces. The record it stands for has each key bound to the
  decoding of its value, a later field replacing an earlier one of the same key.
\<close>

definition render_field :: "string \<times> value_text \<Rightarrow> string" where
  "render_field f = [dquote] @ fst f @ [dquote] @ '':'' @ render_value (snd f)"

definition render_line :: "string \<Rightarrow> (string \<times> value_text) list \<Rightarrow> string" where
  "render_line fsep fs = ''{'' @ join fsep (map render_field fs) @ ''}''"

definition spec_record :: "(string \<times> value_text) list \<Rightarrow> response" where
  "spec_record fs = foldl (\<lambda>d f. AList.update (fst f) (spec_decode (snd f)) d) [] fs"



subsection \<open>A connection for the examples\<close>

text \<open>
  The connection the constructor makes when the class counter is 0, the temporary file is
  \<^verbatim>\<open>/tmp/log\<close> and the session starts, with the reads of its log left open.
\<close>

definition sample_connection :: "string list \<Rightarrow> connection" where
  "sample_connection reads =
     \<lparr> closed = False, filename = ''/tmp/log'',
       START = [''screen'', ''-Logfile'', ''/tmp/log'', ''-dmSL'', ''lean_repl1'', ''lean'',
                ''--run'', ''src/repl.lean''],
       QUERY = [''screen'', ''-S'', ''lean_repl1'', ''-X'', ''stuff''],
       EXIT = [''screen'', ''-S'', ''lean_repl1'', ''-X'', ''quit''],
       queries = 0, log = reads,
       runs = [[''screen'', ''-Logfile'', ''/tmp/log'', ''-dmSL'', ''lean_repl1'', ''lean'',
                ''--run'', ''src/repl.lean'']],
       file_open = True, file_exists = True \<rparr>"

section \<open>Properties\<close>

subsection \<open>Escaping and unescaping newlines\<close>

lemma contains_iff_sublist: "contains s sub \<longleftrightarrow> sublist sub s"
  by (induction s) (auto simp: sublist_Cons_right)

lemma escape_Nil: "escape_newlines [] = []"
  by (simp add: escape_newlines_def)

lemma escape_Cons:
  "escape_newlines (c # cs) =
     (if c = newline then bslash # CHR ''n'' # escape_newlines cs else c # escape_newlines cs)"
  by (auto simp add: escape_newlines_def)

lemma unescape_Nil: "unescape_newlines [] = []"
  by (simp add: unescape_newlines_def)

lemma unescape_single: "unescape_newlines [c] = [c]"
  by (simp add: unescape_newlines_def)

lemma unescape_Cons2:
  "unescape_newlines (c # d # cs) =
     (if c = bslash \<and> d = CHR ''n'' then newline # unescape_newlines cs
      else c # unescape_newlines (d # cs))"
  by (auto simp add: unescape_newlines_def)

text \<open>
  Unescaping an escaped string is unescaping the string itself: the escapes of the newlines
  are undone, and so is every backslash and \<open>n\<close> the string had from the start.
\<close>

lemma unescape_escape: "unescape_newlines (escape_newlines s) = unescape_newlines s"
proof (induction s rule: length_induct)
  case (1 s)
  show ?case
  proof (cases s)
    case Nil
    then show ?thesis by (simp add: escape_Nil)
  next
    case (Cons c cs)
    note s = Cons
    show ?thesis
    proof (cases cs)
      case Nil
      with s show ?thesis
        by (simp add: escape_Cons escape_Nil unescape_single unescape_Cons2 unescape_Nil)
    next
      case (Cons d ds)
      have ih1: "unescape_newlines (escape_newlines cs) = unescape_newlines cs"
        using 1 s by simp
      have ih2: "unescape_newlines (escape_newlines ds) = unescape_newlines ds"
        using 1 s Cons by simp
      show ?thesis
      proof (cases "c = newline")
        case True
        then show ?thesis using s Cons ih1
          by (simp add: escape_Cons unescape_Cons2)
      next
        case False
        then show ?thesis using s Cons ih1 ih2
          by (auto simp add: escape_Cons unescape_Cons2)
      qed
    qed
  qed
qed

lemma length_unescape_le: "length (unescape_newlines s) \<le> length s"
proof (induction s rule: length_induct)
  case (1 s)
  show ?case
  proof (cases s)
    case Nil
    then show ?thesis by (simp add: unescape_Nil)
  next
    case (Cons c cs)
    note s = Cons
    show ?thesis
    proof (cases cs)
      case Nil
      with s show ?thesis by (simp add: unescape_single)
    next
      case (Cons d ds)
      have "length (unescape_newlines cs) \<le> length cs" using 1 s by simp
      moreover have "length (unescape_newlines ds) \<le> length ds" using 1 s Cons by simp
      ultimately show ?thesis using s Cons by (auto simp add: unescape_Cons2)
    qed
  qed
qed

lemma unescape_fixed_iff:
  "unescape_newlines s = s \<longleftrightarrow> \<not> contains s [bslash, CHR ''n'']"
proof (induction s)
  case Nil
  then show ?case by (simp add: unescape_Nil)
next
  case (Cons c cs)
  show ?case
  proof (cases cs)
    case Nil
    then show ?thesis by (simp add: unescape_single)
  next
    case (Cons d ds)
    show ?thesis
    proof (cases "c = bslash \<and> d = CHR ''n''")
      case True
      have "length (unescape_newlines ds) \<le> length ds" by (rule length_unescape_le)
      then have "unescape_newlines (c # d # ds) \<noteq> c # d # ds"
        using True by (auto simp add: unescape_Cons2 dest: arg_cong [where f = length])
      then show ?thesis using True Cons by simp
    next
      case False
      then show ?thesis using Cons Cons.IH by (auto simp add: unescape_Cons2)
    qed
  qed
qed

text \<open>
  C3, as stated: escaping the newlines of a tactic string and unescaping the result gives the
  string back, for every tactic string with newlines in it. This fails for a string that
  has a backslash followed by \<open>n\<close> of its own: in the string made of a backslash, an \<open>n\<close>
  and a newline, both the escape of the newline and the two characters that were there
  before come back as newlines.
\<close>

theorem escape_unescape_counterexample:
  "newline \<in> set [bslash, CHR ''n'', newline] \<and>
   unescape_newlines (escape_newlines [bslash, CHR ''n'', newline]) = [newline, newline] \<and>
   unescape_newlines (escape_newlines [bslash, CHR ''n'', newline]) \<noteq> [bslash, CHR ''n'', newline]"
  by (simp add: escape_newlines_def unescape_newlines_def)

text \<open>
  C3, amended: escaping and then unescaping gives a tactic string back exactly when no
  backslash in it is followed at once by the letter \<open>n\<close>, however many newlines it has.
\<close>

theorem escape_unescape_roundtrip:
  "unescape_newlines (escape_newlines tactic) = tactic \<longleftrightarrow>
   \<not> contains tactic [bslash, CHR ''n'']"
  by (simp add: unescape_escape unescape_fixed_iff)

theorem escape_unescape_roundtrip_witness:
  "\<not> contains [CHR ''a'', newline, bslash, newline, CHR ''n''] [bslash, CHR ''n''] \<and>
   escape_newlines [CHR ''a'', newline, bslash, newline, CHR ''n''] =
     [CHR ''a'', bslash, CHR ''n'', bslash, bslash, CHR ''n'', CHR ''n''] \<and>
   unescape_newlines (escape_newlines [CHR ''a'', newline, bslash, newline, CHR ''n'']) =
     [CHR ''a'', newline, bslash, newline, CHR ''n'']"
proof -
  have a: "\<not> contains [CHR ''a'', newline, bslash, newline, CHR ''n''] [bslash, CHR ''n'']"
    by simp
  have b: "escape_newlines [CHR ''a'', newline, bslash, newline, CHR ''n''] =
     [CHR ''a'', bslash, CHR ''n'', bslash, bslash, CHR ''n'', CHR ''n'']"
    by (simp add: escape_newlines_def)
  from a b show ?thesis
    using escape_unescape_roundtrip [of "[CHR ''a'', newline, bslash, newline, CHR ''n'']"]
    by simp
qed

subsection \<open>Integers and their digits\<close>

lemma hex_digit_decimal: "n < 10 \<Longrightarrow> (of_char (hex_digit n) :: nat) = 48 + n"
proof -
  assume n: "n < 10"
  show ?thesis
  proof (cases "n < 5")
    case True
    then have "n \<in> {0, 1, 2, 3, 4}" by auto
    then show ?thesis by (auto simp add: hex_digit_def)
  next
    case False
    with n have "n \<in> {5, 6, 7, 8, 9}" by auto
    then show ?thesis by (auto simp add: hex_digit_def)
  qed
qed

lemma hex_digit_is_digit: "n < 10 \<Longrightarrow> is_digit (hex_digit n) \<and> digit_val (hex_digit n) = n"
  by (simp add: is_digit_def digit_val_def hex_digit_decimal)

lemma decimal_snoc: "decimal (s @ [c]) = 10 * decimal s + digit_val c"
  by (simp add: decimal_def)

lemma str_nat_digits: "str_nat n \<noteq> [] \<and> list_all is_digit (str_nat n) \<and> decimal (str_nat n) = n"
proof (induction n rule: str_nat.induct)
  case (1 n)
  show ?case
  proof (cases "n < 10")
    case True
    then show ?thesis
      by (simp add: str_nat.simps [of n] decimal_def hex_digit_is_digit)
  next
    case False
    have m: "n mod 10 < 10" by simp
    from False 1 have ih: "str_nat (n div 10) \<noteq> []" "list_all is_digit (str_nat (n div 10))"
      "decimal (str_nat (n div 10)) = n div 10" by simp_all
    from False have s: "str_nat n = str_nat (n div 10) @ [hex_digit (n mod 10)]"
      by (simp add: str_nat.simps [of n])
    show ?thesis
      using ih hex_digit_is_digit [OF m] by (simp add: s decimal_snoc)
  qed
qed

lemma length_str_nat_le: "0 < d \<Longrightarrow> length (str_nat n) \<le> d \<longleftrightarrow> n < 10 ^ d"
proof (induction n arbitrary: d rule: str_nat.induct)
  case (1 n)
  show ?case
  proof (cases "n < 10")
    case True
    have "(10::nat) ^ 1 \<le> 10 ^ d" using "1.prems" by (intro power_increasing) simp_all
    with True have "n < 10 ^ d" by simp
    moreover have "length (str_nat n) = 1" using True by (simp add: str_nat.simps [of n])
    ultimately show ?thesis using "1.prems" by simp
  next
    case False
    then have s: "length (str_nat n) = Suc (length (str_nat (n div 10)))"
      by (simp add: str_nat.simps [of n])
    from "1.prems" obtain d' where d: "d = Suc d'" by (cases d) auto
    show ?thesis
    proof (cases "d' = 0")
      case True
      have "str_nat (n div 10) \<noteq> []" using str_nat_digits by blast
      then have "0 < length (str_nat (n div 10))" by simp
      with True d s False show ?thesis by simp
    next
      case pos: False
      then have "length (str_nat (n div 10)) \<le> d' \<longleftrightarrow> n div 10 < 10 ^ d'"
        using "1.IH" [OF False, of d'] by simp
      moreover have "n div 10 < 10 ^ d' \<longleftrightarrow> n < 10 ^ d' * 10"
        by (rule div_less_iff_less_mult) simp
      ultimately show ?thesis using d s by (simp add: mult.commute)
    qed
  qed
qed

lemma in_limit_iff: "in_limit i \<longleftrightarrow> \<bar>i\<bar> < 10 ^ max_str_digits"
proof -
  have "0 < max_str_digits" by (simp add: max_str_digits_def)
  then have "in_limit i \<longleftrightarrow> nat \<bar>i\<bar> < 10 ^ max_str_digits"
    unfolding in_limit_def by (rule length_str_nat_le)
  also have "\<dots> \<longleftrightarrow> \<bar>i\<bar> < int (10 ^ max_str_digits)" by linarith
  finally show ?thesis by simp
qed

lemma big_id_not_in_limit: "\<not> in_limit (10 ^ max_str_digits)"
  by (simp add: in_limit_iff)

subsection \<open>The example connection\<close>

lemma constructor_sample:
  "LeanGymConnection 0 ''lean-gym'' ''/tmp/log'' (\<lambda>p. Started) reads =
     (1, Inr (sample_connection reads))"
  by (simp add: LeanGymConnection_def sample_connection_def str_int_def in_limit_def
      max_str_digits_def int_text_def str_nat.simps hex_digit_def Let_def)

subsection \<open>A closed connection\<close>

text \<open>
  C5: \<^verbatim>\<open>close\<close> leaves the connection closed (whether it returns or raises), and on a
  closed connection each of \<^verbatim>\<open>init_search\<close>, \<^verbatim>\<open>run_tac\<close>, \<^verbatim>\<open>clear_search\<close>,
  \<^verbatim>\<open>collect\<close> and \<^verbatim>\<open>close\<close> raises \<^verbatim>\<open>ValueError('connection is closed')\<close> and leaves the
  connection as it was, so still closed; in particular a second \<^verbatim>\<open>close\<close> raises it.
\<close>

theorem closed_operations_fail:
  "closed (snd (close c0)) \<and>
   (closed c \<longrightarrow>
      init_search name namespaces c = (Inl closed_error, c) \<and>
      run_tac search_id tactic_state_id tactic c = (Inl closed_error, c) \<and>
      clear_search search_id c = (Inl closed_error, c) \<and>
      collect c = Some (Inl closed_error, c) \<and>
      close c = (Inl closed_error, c))"
  by (simp add: close_def init_search_def run_tac_def clear_search_def collect_def)

theorem closed_operations_fail_witness:
  "fst (close (sample_connection [])) = Inr () \<and>
   closed (snd (close (sample_connection []))) \<and>
   init_search ''foo'' [] (snd (close (sample_connection []))) =
     (Inl closed_error, snd (close (sample_connection []))) \<and>
   run_tac 0 0 ''simp'' (snd (close (sample_connection []))) =
     (Inl closed_error, snd (close (sample_connection []))) \<and>
   clear_search 0 (snd (close (sample_connection []))) =
     (Inl closed_error, snd (close (sample_connection []))) \<and>
   collect (snd (close (sample_connection []))) =
     Some (Inl closed_error, snd (close (sample_connection []))) \<and>
   close (snd (close (sample_connection []))) =
     (Inl closed_error, snd (close (sample_connection [])))"
proof -
  have a: "fst (close (sample_connection [])) = Inr ()"
    by (simp add: close_def sample_connection_def)
  have b: "closed (snd (close (sample_connection [])))"
    by (simp add: close_def sample_connection_def)
  show ?thesis
    using a b closed_operations_fail [of "sample_connection []" "snd (close (sample_connection []))"
        "''foo''" "[]" 0 0 "''simp''"]
    by simp
qed

subsection \<open>What is typed into the session\<close>

lemma replace_single: "replace [a] [b] s = map (\<lambda>c. if c = a then b else c) s"
  by (induction s) auto

lemma contains_set: "contains s sub \<Longrightarrow> set sub \<subseteq> set s"
proof (induction s)
  case Nil
  then show ?case by simp
next
  case (Cons a s)
  from Cons.prems have "prefix sub (a # s) \<or> contains s sub" by simp
  then show ?case
  proof
    assume "prefix sub (a # s)"
    then show ?thesis by (rule set_mono_prefix)
  next
    assume "contains s sub"
    then have "set sub \<subseteq> set s" by (rule Cons.IH)
    then show ?thesis by auto
  qed
qed





lemma squote_notin_replace: "squote \<notin> set (replace [squote] [dquote] s)"
  by (auto simp add: replace_single)

text \<open>
  C10: what \<^verbatim>\<open>__send_query\<close> types is the rendering of the command with every single quote
  replaced by a double quote, and a newline. So the text typed by \<^verbatim>\<open>run_tac\<close> for a tactic
  that has an apostrophe has no apostrophe, and does not contain the tactic as it was
  given. (When \<^verbatim>\<open>str\<close> refuses one of the two identifiers, \<^verbatim>\<open>run_tac\<close> raises before
  it types anything.)
\<close>

theorem send_query_replaces_apostrophes:
  "runs (send_query cmd c) =
     runs c @ [QUERY c @ [map (\<lambda>ch. if ch = squote then dquote else ch) (str cmd) @ [newline]]] \<and>
   (\<not> closed c \<and> squote \<in> set tactic \<and> in_limit search_id \<and> in_limit tactic_state_id \<longrightarrow>
      (\<exists>payload. runs (snd (run_tac search_id tactic_state_id tactic c)) =
                   runs c @ [QUERY c @ [payload]] \<and>
                 squote \<notin> set payload \<and> \<not> contains payload tactic)) \<and>
   (\<not> closed c \<and> \<not> (in_limit search_id \<and> in_limit tactic_state_id) \<longrightarrow>
      runs (snd (run_tac search_id tactic_state_id tactic c)) = runs c)"
proof (intro conjI impI)
  show "runs (send_query cmd c) =
     runs c @ [QUERY c @ [map (\<lambda>ch. if ch = squote then dquote else ch) (str cmd) @ [newline]]]"
    by (simp add: send_query_def replace_single)
next
  assume h: "\<not> closed c \<and> squote \<in> set tactic \<and> in_limit search_id \<and>
    in_limit tactic_state_id"
  define cmd' where "cmd' = Lst [Str ''run_tac'',
        Lst [Str (int_text search_id), Str (int_text tactic_state_id),
             Str (escape_newlines tactic)]]"
  define payload where "payload = replace [squote] [dquote] (str cmd') @ [newline]"
  have r: "runs (snd (run_tac search_id tactic_state_id tactic c)) = runs c @ [QUERY c @ [payload]]"
    using h by (simp add: run_tac_def str_int_def send_query_def payload_def cmd'_def)
  have n: "squote \<notin> set payload"
    using squote_notin_replace [of "str cmd'"] by (simp add: payload_def)
  have "\<not> contains payload tactic"
  proof
    assume "contains payload tactic"
    then have "set tactic \<subseteq> set payload" by (rule contains_set)
    with h n show False by auto
  qed
  with r n show "\<exists>payload. runs (snd (run_tac search_id tactic_state_id tactic c)) =
                   runs c @ [QUERY c @ [payload]] \<and>
                 squote \<notin> set payload \<and> \<not> contains payload tactic"
    by blast
next
  assume "\<not> closed c \<and> \<not> (in_limit search_id \<and> in_limit tactic_state_id)"
  then show "runs (snd (run_tac search_id tactic_state_id tactic c)) = runs c"
    by (auto simp add: run_tac_def str_int_def)
qed

theorem send_query_replaces_apostrophes_witness:
  "\<not> closed (sample_connection []) \<and>
   squote \<in> set (''exact h'' @ [squote]) \<and>
   runs (snd (run_tac 0 1 (''exact h'' @ [squote]) (sample_connection []))) =
     runs (sample_connection []) @
       [[''screen'', ''-S'', ''lean_repl1'', ''-X'', ''stuff'',
         [CHR ''['', dquote] @ ''run_tac'' @ [dquote] @ '', ['' @ [dquote] @ ''0'' @ [dquote] @
         '', '' @ [dquote] @ ''1'' @ [dquote] @ '', '' @ [dquote] @ ''exact h'' @ [dquote] @
         [dquote] @ '']]'' @ [newline]]] \<and>
   \<not> contains ([CHR ''['', dquote] @ ''run_tac'' @ [dquote] @ '', ['' @ [dquote] @ ''0'' @
         [dquote] @ '', '' @ [dquote] @ ''1'' @ [dquote] @ '', '' @ [dquote] @ ''exact h'' @
         [dquote] @ [dquote] @ '']]'' @ [newline])
      (''exact h'' @ [squote]) \<and>
   \<not> in_limit (10 ^ max_str_digits) \<and>
   runs (snd (run_tac (10 ^ max_str_digits) 1 (''exact h'' @ [squote]) (sample_connection []))) =
     runs (sample_connection [])"
proof -
  have a: "\<not> closed (sample_connection []) \<and> squote \<in> set (''exact h'' @ [squote]) \<and>
      in_limit 0 \<and> in_limit 1"
    by (simp add: sample_connection_def in_limit_def max_str_digits_def str_nat.simps)
  have r: "runs (snd (run_tac 0 1 (''exact h'' @ [squote]) (sample_connection []))) =
     runs (sample_connection []) @
       [[''screen'', ''-S'', ''lean_repl1'', ''-X'', ''stuff'',
         [CHR ''['', dquote] @ ''run_tac'' @ [dquote] @ '', ['' @ [dquote] @ ''0'' @ [dquote] @
         '', '' @ [dquote] @ ''1'' @ [dquote] @ '', '' @ [dquote] @ ''exact h'' @ [dquote] @
         [dquote] @ '']]'' @ [newline]]]"
    by (simp add: run_tac_def send_query_def sample_connection_def str_int_def in_limit_def
        max_str_digits_def int_text_def str_nat.simps hex_digit_def escape_newlines_def
        repr_str_def repr_char_def Let_def)
  from send_query_replaces_apostrophes
    [of "Str []" "sample_connection []" "''exact h'' @ [squote]" 0 1] a
  obtain payload where
    p: "runs (snd (run_tac 0 1 (''exact h'' @ [squote]) (sample_connection []))) =
          runs (sample_connection []) @ [QUERY (sample_connection []) @ [payload]]"
    and q: "\<not> contains payload (''exact h'' @ [squote])"
    by blast
  from p r have "payload = [CHR ''['', dquote] @ ''run_tac'' @ [dquote] @ '', ['' @ [dquote] @ ''0'' @
         [dquote] @ '', '' @ [dquote] @ ''1'' @ [dquote] @ '', '' @ [dquote] @ ''exact h'' @
         [dquote] @ [dquote] @ '']]'' @ [newline]"
    by (simp add: sample_connection_def)
  with a r q have first:
    "\<not> closed (sample_connection []) \<and>
     squote \<in> set (''exact h'' @ [squote]) \<and>
     runs (snd (run_tac 0 1 (''exact h'' @ [squote]) (sample_connection []))) =
       runs (sample_connection []) @
         [[''screen'', ''-S'', ''lean_repl1'', ''-X'', ''stuff'',
           [CHR ''['', dquote] @ ''run_tac'' @ [dquote] @ '', ['' @ [dquote] @ ''0'' @ [dquote] @
           '', '' @ [dquote] @ ''1'' @ [dquote] @ '', '' @ [dquote] @ ''exact h'' @ [dquote] @
           [dquote] @ '']]'' @ [newline]]] \<and>
     \<not> contains ([CHR ''['', dquote] @ ''run_tac'' @ [dquote] @ '', ['' @ [dquote] @ ''0'' @
           [dquote] @ '', '' @ [dquote] @ ''1'' @ [dquote] @ '', '' @ [dquote] @ ''exact h'' @
           [dquote] @ [dquote] @ '']]'' @ [newline])
        (''exact h'' @ [squote])"
    by simp
  have b: "\<not> closed (sample_connection []) \<and> \<not> (in_limit (10 ^ max_str_digits) \<and> in_limit 1)"
    using big_id_not_in_limit by (simp add: sample_connection_def)
  from send_query_replaces_apostrophes
    [of "Str []" "sample_connection []" "''exact h'' @ [squote]" "10 ^ max_str_digits" 1] b
  have "runs (snd (run_tac (10 ^ max_str_digits) 1 (''exact h'' @ [squote])
      (sample_connection []))) = runs (sample_connection [])"
    by blast
  with first big_id_not_in_limit show ?thesis by (intro conjI) simp_all
qed

subsection \<open>When the decoder raises\<close>

lemma not_digit_dquote: "\<not> is_digit dquote"
  by (simp add: is_digit_def)

lemma slice_quoted: "slice_1_m1 (c # b @ [d]) = b"
  by (simp add: slice_1_m1_def)


lemma quoted_digits_all:
  assumes m: "match_quoted_digits (dquote # b @ [dquote])" and nq: "dquote \<notin> set b"
  shows "b \<noteq> [] \<and> list_all is_digit b"
proof -
  from m have tw: "takeWhile is_digit (b @ [dquote]) \<noteq> []"
    and dw: "\<exists>r. dropWhile is_digit (b @ [dquote]) = dquote # r"
    by (auto simp: match_quoted_digits_def split: list.splits)
  have all: "list_all is_digit b"
  proof (rule ccontr)
    assume "\<not> list_all is_digit b"
    then obtain x where x: "x \<in> set b" "\<not> is_digit x" by (auto simp: list_all_iff)
    then have "dropWhile is_digit (b @ [dquote]) = dropWhile is_digit b @ [dquote]"
      by (simp add: dropWhile_append1)
    moreover have ne: "dropWhile is_digit b \<noteq> []" using x by (auto simp: dropWhile_eq_Nil_conv)
    ultimately have "hd (dropWhile is_digit b) = dquote" using dw by (cases "dropWhile is_digit b") auto
    moreover have "hd (dropWhile is_digit b) \<in> set b"
      using ne by (meson hd_in_set set_dropWhileD)
    ultimately show False using nq by simp
  qed
  have "b \<noteq> []"
  proof
    assume "b = []"
    with tw show False by (simp add: not_digit_dquote)
  qed
  with all show ?thesis by simp
qed

lemma match_quoted_digits_iff:
  assumes "dquote \<notin> set b"
  shows "match_quoted_digits (dquote # b @ [dquote]) \<longleftrightarrow> b \<noteq> [] \<and> list_all is_digit b"
proof
  assume "match_quoted_digits (dquote # b @ [dquote])"
  with assms show "b \<noteq> [] \<and> list_all is_digit b" by (rule quoted_digits_all [rotated])
next
  assume h: "b \<noteq> [] \<and> list_all is_digit b"
  then have nd: "\<forall>x\<in>set b. is_digit x" by (simp add: list_all_iff)
  have tw: "takeWhile is_digit (b @ [dquote]) = b"
    using nd by (simp add: takeWhile_append2 not_digit_dquote)
  have dw: "dropWhile is_digit (b @ [dquote]) = [dquote]"
    using nd by (simp add: dropWhile_append2 not_digit_dquote)
  show "match_quoted_digits (dquote # b @ [dquote])"
    using h by (simp add: match_quoted_digits_def tw dw)
qed

lemma py_int_digits:
  assumes "b \<noteq> []" and "list_all is_digit b"
  shows "py_int b =
           (if max_str_digits < length b then Inl (int_limit_error (length b))
            else Inr (int (decimal b)))"
proof -
  have tw: "takeWhile is_digit b = b"
    using assms(2) by (simp add: list_all_iff)
  show ?thesis using assms by (simp add: py_int_def tw)
qed

lemma decode_quoted_digits:
  assumes "ds \<noteq> []" and "list_all is_digit ds"
  shows "decode_value (dquote # ds @ [dquote]) =
           (if max_str_digits < length ds then Inl (int_limit_error (length ds))
            else Inr (PInt (int (decimal ds))))"
proof -
  have "dquote \<notin> set ds"
    using assms(2) not_digit_dquote by (auto simp: list_all_iff)
  then have "match_quoted_digits (dquote # ds @ [dquote])"
    using assms by (simp add: match_quoted_digits_iff)
  then show ?thesis
    using assms by (simp add: decode_value_def slice_quoted py_int_digits)
qed





subsection \<open>The quoted strings of a list\<close>

lemma findall_quoted_none: "dquote \<notin> set s \<Longrightarrow> findall_quoted s = []"
  by (induction s) auto

lemma findall_quoted_skip: "dquote \<notin> set pre \<Longrightarrow> findall_quoted (pre @ s) = findall_quoted s"
  by (induction pre) auto

lemma findall_quoted_first:
  assumes "dquote \<notin> set x"
  shows "findall_quoted (dquote # x @ dquote # rest) = x # findall_quoted rest"
proof -
  have nd: "\<forall>c\<in>set x. not_dquote c" using assms by (auto simp: not_dquote_def)
  have tw: "takeWhile not_dquote (x @ dquote # rest) = x"
    using nd by (simp add: takeWhile_append2 not_dquote_def)
  have dw: "dropWhile not_dquote (x @ dquote # rest) = dquote # rest"
    using nd by (simp add: dropWhile_append2 not_dquote_def)
  show ?thesis by (simp add: tw dw)
qed

lemma findall_quoted_join:
  assumes sep: "dquote \<notin> set sep" and post: "dquote \<notin> set post"
    and xs: "\<forall>x\<in>set xs. dquote \<notin> set x"
  shows "findall_quoted (join sep (map (\<lambda>x. dquote # x @ [dquote]) xs) @ post) = xs"
  using xs
proof (induction xs rule: induct_list012)
  case 1
  then show ?case using post by (simp add: findall_quoted_none)
next
  case (2 x)
  then show ?case
    using post findall_quoted_first [of x post] by (simp add: findall_quoted_none)
next
  case (3 x y zs)
  have "findall_quoted (join sep (map (\<lambda>x. dquote # x @ [dquote]) (y # zs)) @ post) = y # zs"
    using 3 by simp
  moreover have "findall_quoted (dquote # x @ dquote # (sep @ join sep (map (\<lambda>x. dquote # x @ [dquote]) (y # zs)) @ post))
     = x # findall_quoted (sep @ join sep (map (\<lambda>x. dquote # x @ [dquote]) (y # zs)) @ post)"
    using 3 by (intro findall_quoted_first) simp
  ultimately show ?case
    using sep by (simp add: findall_quoted_skip)
qed

lemma decode_list:
  assumes sep: "dquote \<notin> set sep" and xs: "\<forall>x\<in>set xs. dquote \<notin> set x"
  shows "decode_value (''['' @ join sep (map (\<lambda>x. [dquote] @ x @ [dquote]) xs) @ '']'') =
           Inr (PList xs)"
proof -
  have "findall_quoted (join sep (map (\<lambda>x. dquote # x @ [dquote]) xs) @ '']'') = xs"
    using sep xs by (intro findall_quoted_join) simp_all
  then show ?thesis
    by (simp add: decode_value_def match_quoted_digits_def)
qed

subsection \<open>Lines in which the pattern finds nothing\<close>

lemma findall_pairs_empty: "findall_pairs s = [] \<longleftrightarrow> \<not> has_pair s"
proof (induction s rule: findall_pairs.induct)
  case 1
  then show ?case by simp
next
  case (2 c cs)
  show ?case
  proof (cases "match_pair (c # cs)")
    case None
    with 2 show ?thesis by simp
  next
    case (Some m)
    then show ?thesis by (cases m) simp
  qed
qed

subsection \<open>Lines that follow the grammar\<close>

lemma not_word_dquote: "\<not> is_word dquote"
  by (simp add: is_word_def)

lemma match_value_null: "match_value (''null'' @ rest) = Some (''null'', rest)"
  by (simp add: match_value_def)

lemma match_value_quoted:
  assumes "dquote \<notin> set t"
  shows "match_value (dquote # t @ dquote # rest) = Some (dquote # t @ [dquote], rest)"
proof -
  have nd: "\<forall>x\<in>set t. not_dquote x" using assms by (auto simp: not_dquote_def)
  have tw: "takeWhile not_dquote (t @ dquote # rest) = t"
    using nd by (simp add: takeWhile_append2 not_dquote_def)
  have dw: "dropWhile not_dquote (t @ dquote # rest) = dquote # rest"
    using nd by (simp add: dropWhile_append2 not_dquote_def)
  show ?thesis by (simp add: match_value_def tw dw)
qed

lemma match_value_items:
  assumes "list_all not_bracket body"
  shows "match_value (CHR ''['' # body @ CHR '']'' # rest) = Some (CHR ''['' # body @ '']'', rest)"
proof -
  have nb: "\<forall>x\<in>set body. not_bracket x" using assms by (simp add: list_all_iff)
  have tw: "takeWhile not_bracket (body @ CHR '']'' # rest) = body"
    using nb by (simp add: takeWhile_append2 not_bracket_def)
  have dw: "dropWhile not_bracket (body @ CHR '']'' # rest) = CHR '']'' # rest"
    using nb by (simp add: dropWhile_append2 not_bracket_def)
  show ?thesis by (simp add: match_value_def tw dw)
qed

lemma not_bracket_join:
  "list_all not_bracket sep \<Longrightarrow> list_all (list_all not_bracket) xs \<Longrightarrow>
   list_all not_bracket (join sep xs)"
  by (induction xs rule: induct_list012) simp_all

lemma match_value_render:
  assumes "well_formed_value t"
  shows "match_value (render_value t @ rest) = Some (render_value t, rest)"
proof (cases t)
  case Null
  then show ?thesis using match_value_null by simp
next
  case (Quoted q)
  with assms show ?thesis using match_value_quoted [of q rest] by simp
next
  case (Items sep xs)
  with assms have "list_all (list_all not_bracket) (map (\<lambda>x. [dquote] @ x @ [dquote]) xs)"
    by (simp add: list_all_iff not_bracket_def)
  with assms Items have "list_all not_bracket (join sep (map (\<lambda>x. [dquote] @ x @ [dquote]) xs))"
    by (intro not_bracket_join) simp_all
  then show ?thesis
    using Items match_value_items [of "join sep (map (\<lambda>x. [dquote] @ x @ [dquote]) xs)" rest]
    by simp
qed

lemma match_pair_field:
  assumes k: "word_key k" and v: "match_value (v @ rest) = Some (v, rest)"
  shows "match_pair (dquote # k @ dquote # CHR '':'' # v @ rest) = Some (k, v, rest)"
proof -
  have w: "\<forall>x\<in>set k. is_word x" using k by (simp add: word_key_def list_all_iff)
  have tw: "takeWhile is_word (k @ dquote # CHR '':'' # v @ rest) = k"
    using w by (simp add: takeWhile_append2 not_word_dquote)
  have dw: "dropWhile is_word (k @ dquote # CHR '':'' # v @ rest) = dquote # CHR '':'' # v @ rest"
    using w by (simp add: dropWhile_append2 not_word_dquote)
  show ?thesis using k v by (simp add: match_pair_def tw dw word_key_def)
qed

lemma findall_pairs_skip: "dquote \<notin> set pre \<Longrightarrow> findall_pairs (pre @ s) = findall_pairs s"
  by (induction pre) (auto simp add: match_pair_def)

lemma findall_pairs_none: "dquote \<notin> set s \<Longrightarrow> findall_pairs s = []"
  using findall_pairs_skip [of s "[]"] by simp

lemma findall_pairs_field:
  assumes "word_key (fst f)" and "well_formed_value (snd f)"
  shows "findall_pairs (render_field f @ rest) = (fst f, render_value (snd f)) # findall_pairs rest"
proof -
  have "match_pair (dquote # fst f @ dquote # CHR '':'' # render_value (snd f) @ rest) =
          Some (fst f, render_value (snd f), rest)"
    using assms by (intro match_pair_field match_value_render)
  then show ?thesis by (simp add: render_field_def)
qed

lemma findall_pairs_join:
  assumes fsep: "dquote \<notin> set fsep" and post: "dquote \<notin> set post"
  shows "list_all (\<lambda>f. word_key (fst f) \<and> well_formed_value (snd f)) fs \<Longrightarrow>
         findall_pairs (join fsep (map render_field fs) @ post) =
           map (\<lambda>f. (fst f, render_value (snd f))) fs"
proof (induction fs rule: induct_list012)
  case 1
  then show ?case using post by (simp add: findall_pairs_none)
next
  case (2 f)
  then show ?case using post by (simp add: findall_pairs_field findall_pairs_none)
next
  case (3 f g hs)
  then have ih: "findall_pairs (join fsep (map render_field (g # hs)) @ post) =
      map (\<lambda>f. (fst f, render_value (snd f))) (g # hs)" by simp
  have "findall_pairs (render_field f @ fsep @ join fsep (map render_field (g # hs)) @ post) =
      (fst f, render_value (snd f)) #
        findall_pairs (fsep @ join fsep (map render_field (g # hs)) @ post)"
    using 3 by (intro findall_pairs_field) simp_all
  also have "findall_pairs (fsep @ join fsep (map render_field (g # hs)) @ post) =
      findall_pairs (join fsep (map render_field (g # hs)) @ post)"
    using fsep by (rule findall_pairs_skip)
  finally show ?case using ih by simp
qed

lemma decode_render:
  assumes "well_formed_value t"
  shows "decode_value (render_value t) = Inr (spec_decode t)"
proof (cases t)
  case Null
  then show ?thesis by (simp add: decode_value_def)
next
  case (Quoted q)
  with assms have nq: "dquote \<notin> set q" by simp
  show ?thesis
  proof (cases "q \<noteq> [] \<and> list_all is_digit q")
    case True
    with assms Quoted have "length q \<le> max_str_digits" by simp
    with True Quoted show ?thesis using decode_quoted_digits [of q] by simp
  next
    case False
    with nq have "\<not> match_quoted_digits (dquote # q @ [dquote])"
      by (simp add: match_quoted_digits_iff)
    with False Quoted show ?thesis
      by (auto simp add: decode_value_def slice_quoted)
  qed
next
  case (Items sep xs)
  with assms show ?thesis
    using decode_list [of sep xs] by (simp add: list_all_iff)
qed

lemma store_pairs_render:
  "list_all (\<lambda>f. well_formed_value (snd f)) fs \<Longrightarrow>
   store_pairs (map (\<lambda>f. (fst f, render_value (snd f))) fs) acc =
     Inr (foldl (\<lambda>d f. AList.update (fst f) (spec_decode (snd f)) d) acc fs)"
  by (induction fs arbitrary: acc) (simp_all add: decode_render)

lemma parse_render_line:
  assumes "list_all (\<lambda>f. word_key (fst f) \<and> well_formed_value (snd f)) fs"
    and "dquote \<notin> set fsep" and "dquote \<notin> set post"
  shows "parse_response (render_line fsep fs @ post) = Inr (spec_record fs)"
proof -
  have "findall_pairs (''{'' @ (join fsep (map render_field fs) @ ''}'' @ post)) =
        findall_pairs (join fsep (map render_field fs) @ ''}'' @ post)"
    by (rule findall_pairs_skip) simp
  also have "\<dots> = map (\<lambda>f. (fst f, render_value (snd f))) fs"
    using assms by (intro findall_pairs_join) simp_all
  finally have "findall_pairs (render_line fsep fs @ post) =
      map (\<lambda>f. (fst f, render_value (snd f))) fs"
    by (simp add: render_line_def)
  moreover have "list_all (\<lambda>f. well_formed_value (snd f)) fs"
    using assms(1) by (simp add: list_all_iff)
  ultimately show ?thesis
    by (simp add: parse_response_def store_pairs_render spec_record_def)
qed

lemma update_fresh: "k \<notin> fst ` set d \<Longrightarrow> AList.update k v d = d @ [(k, v)]"
  by (induction d) auto

lemma foldl_update_distinct:
  "distinct (map fst fs) \<Longrightarrow> fst ` set fs \<inter> fst ` set d = {} \<Longrightarrow>
   foldl (\<lambda>d f. AList.update (fst f) (spec_decode (snd f)) d) d fs =
     d @ map (\<lambda>f. (fst f, spec_decode (snd f))) fs"
proof (induction fs arbitrary: d)
  case Nil
  then show ?case by simp
next
  case (Cons f fs)
  from Cons.prems have fresh: "fst f \<notin> fst ` set d" by auto
  have "fst ` set fs \<inter> fst ` set (d @ [(fst f, spec_decode (snd f))]) = {}"
    using Cons.prems by auto
  with Cons.IH [of "d @ [(fst f, spec_decode (snd f))]"] Cons.prems fresh
  show ?case by (simp add: update_fresh)
qed

lemma spec_record_distinct:
  "distinct (map fst fs) \<Longrightarrow> spec_record fs = map (\<lambda>f. (fst f, spec_decode (snd f))) fs"
  using foldl_update_distinct [of fs "[]"] by (simp add: spec_record_def)

lemma parse_long_digits:
  assumes k: "word_key k" and pre: "dquote \<notin> set pre"
    and ds: "ds \<noteq> []" "list_all is_digit ds" "max_str_digits < length ds"
  shows "parse_response (pre @ [dquote] @ k @ [dquote] @ '':'' @ [dquote] @ ds @ [dquote] @ post) =
           Inl (int_limit_error (length ds))"
proof -
  have nq: "dquote \<notin> set ds"
    using ds(2) not_digit_dquote by (auto simp: list_all_iff)
  have "match_pair (dquote # k @ dquote # CHR '':'' # (dquote # ds @ [dquote]) @ post) =
      Some (k, dquote # ds @ [dquote], post)"
    using k match_value_quoted [OF nq, of post] by (intro match_pair_field) simp_all
  then have "findall_pairs (dquote # k @ dquote # CHR '':'' # (dquote # ds @ [dquote]) @ post) =
      (k, dquote # ds @ [dquote]) # findall_pairs post"
    by simp
  moreover have "findall_pairs (pre @ dquote # k @ dquote # CHR '':'' # (dquote # ds @ [dquote]) @ post) =
      findall_pairs (dquote # k @ dquote # CHR '':'' # (dquote # ds @ [dquote]) @ post)"
    using pre by (rule findall_pairs_skip)
  ultimately have "findall_pairs (pre @ [dquote] @ k @ [dquote] @ '':'' @ [dquote] @ ds @ [dquote] @ post) =
      (k, dquote # ds @ [dquote]) # findall_pairs post"
    by simp
  moreover have "decode_value (dquote # ds @ [dquote]) = Inl (int_limit_error (length ds))"
    using ds decode_quoted_digits [of ds] by simp
  ultimately show ?thesis by (simp add: parse_response_def)
qed

text \<open>
  C2, as stated: the example line decodes as the claim says, but the general rules fail in
  two ways. A bracketed list is not decoded to its quoted strings when one of them holds a
  bracket: the pattern of line 114 ends the list at the first closing bracket, so the list
  with the one string \<open>x]\<close> decodes to the empty list, and a line whose list has a string
  with an opening bracket has no field at all. And a quoted run of more than 4300 digits
  does not decode to an integer: \<^verbatim>\<open>int\<close> raises \<^verbatim>\<open>ValueError\<close>.
\<close>

theorem parse_response_counterexample:
  "render_line '','' [(''c'', Items '','' [''x]''])] =
     ''{'' @ [dquote] @ ''c'' @ [dquote] @ '':['' @ [dquote] @ ''x]'' @ [dquote] @ '']}'' \<and>
   spec_record [(''c'', Items '','' [''x]''])] = [(''c'', PList [''x]''])] \<and>
   parse_response (''{'' @ [dquote] @ ''c'' @ [dquote] @ '':['' @ [dquote] @ ''x]'' @ [dquote] @ '']}'') =
     Inr [(''c'', PList [])] \<and>
   parse_response (''{'' @ [dquote] @ ''c'' @ [dquote] @ '':['' @ [dquote] @ ''x]'' @ [dquote] @ '']}'') \<noteq>
     Inr [(''c'', PList [''x]''])] \<and>
   parse_response (''{'' @ [dquote] @ ''c'' @ [dquote] @ '':['' @ [dquote] @ ''a[1]'' @ [dquote] @
       '','' @ [dquote] @ ''y'' @ [dquote] @ '']}'') = Inr [] \<and>
   parse_response (''{'' @ [dquote] @ ''n'' @ [dquote] @ '':'' @ [dquote] @
       replicate (Suc max_str_digits) (CHR ''1'') @ [dquote] @ ''}'') =
     Inl (int_limit_error (Suc max_str_digits))"
proof -
  have a: "render_line '','' [(''c'', Items '','' [''x]''])] =
     ''{'' @ [dquote] @ ''c'' @ [dquote] @ '':['' @ [dquote] @ ''x]'' @ [dquote] @ '']}''"
    by (simp add: render_line_def render_field_def)
  have b: "spec_record [(''c'', Items '','' [''x]''])] = [(''c'', PList [''x]''])]"
    by (simp add: spec_record_def)
  have c: "parse_response (''{'' @ [dquote] @ ''c'' @ [dquote] @ '':['' @ [dquote] @ ''x]'' @ [dquote] @ '']}'') =
     Inr [(''c'', PList [])]"
    by (simp add: parse_response_def decode_value_def match_quoted_digits_def match_pair_def
        match_value_def is_word_def not_bracket_def not_dquote_def)
  have d: "parse_response (''{'' @ [dquote] @ ''c'' @ [dquote] @ '':['' @ [dquote] @ ''a[1]'' @ [dquote] @
       '','' @ [dquote] @ ''y'' @ [dquote] @ '']}'') = Inr []"
    by (simp add: parse_response_def decode_value_def match_quoted_digits_def match_pair_def
        match_value_def is_word_def not_bracket_def not_dquote_def)
  have e: "parse_response (''{'' @ [dquote] @ ''n'' @ [dquote] @ '':'' @ [dquote] @
       replicate (Suc max_str_digits) (CHR ''1'') @ [dquote] @ ''}'') =
     Inl (int_limit_error (length (replicate (Suc max_str_digits) (CHR ''1''))))"
    by (rule parse_long_digits) (simp_all add: word_key_def is_word_def is_digit_def list_all_iff)
  from a b c d e show ?thesis by simp
qed

text \<open>
  C2, amended: the example line decodes to the record with \<open>a\<close> absent, \<open>b\<close> the integer 3
  and \<open>c\<close> the list of \<open>x\<close> and \<open>y\<close>. In general, for a line of fields between braces,
  whose keys are runs of word characters, whose separators have no double quote and whose
  values are \<^verbatim>\<open>null\<close>, a quoted string without a double quote and with at most 4300
  characters if it is all digits, or a bracketed list of quoted strings without double
  quotes or brackets: the decoder returns the record in which each key is bound to the
  decoding of its value by the rules of the specification (\<^verbatim>\<open>null\<close> to the absent value,
  one to 4300 digits to the integer they write, a list to its strings in order), a later
  field replacing an earlier one of the same key.
\<close>

theorem parse_response_follows_grammar:
  "parse_response (''{'' @ [dquote] @ ''a'' @ [dquote] @ '':null,'' @ [dquote] @ ''b'' @ [dquote] @
      '':'' @ [dquote] @ ''3'' @ [dquote] @ '','' @ [dquote] @ ''c'' @ [dquote] @ '':['' @
      [dquote] @ ''x'' @ [dquote] @ '','' @ [dquote] @ ''y'' @ [dquote] @ '']}'') =
     Inr [(''a'', PNone), (''b'', PInt 3), (''c'', PList [''x'', ''y''])] \<and>
   (list_all (\<lambda>f. word_key (fst f) \<and> well_formed_value (snd f)) fs \<and>
    dquote \<notin> set fsep \<and> dquote \<notin> set post \<longrightarrow>
      parse_response (render_line fsep fs @ post) = Inr (spec_record fs) \<and>
      (distinct (map fst fs) \<longrightarrow>
         parse_response (render_line fsep fs @ post) =
           Inr (map (\<lambda>f. (fst f, spec_decode (snd f))) fs))) \<and>
   (word_key key \<and> dquote \<notin> set post \<longrightarrow>
      parse_response (''{'' @ [dquote] @ key @ [dquote] @ '':null}'' @ post) = Inr [(key, PNone)] \<and>
      (ds \<noteq> [] \<and> list_all is_digit ds \<and> length ds \<le> max_str_digits \<longrightarrow>
         parse_response (''{'' @ [dquote] @ key @ [dquote] @ '':'' @ [dquote] @ ds @ [dquote] @
             ''}'' @ post) = Inr [(key, PInt (int (decimal ds)))]) \<and>
      (length (str_nat n) \<le> max_str_digits \<longrightarrow>
         parse_response (''{'' @ [dquote] @ key @ [dquote] @ '':'' @ [dquote] @ str_nat n @
             [dquote] @ ''}'' @ post) = Inr [(key, PInt (int n))]) \<and>
      (dquote \<notin> set sep \<and> list_all not_bracket sep \<and>
       list_all (\<lambda>x. dquote \<notin> set x \<and> list_all not_bracket x) xs \<longrightarrow>
         parse_response (''{'' @ [dquote] @ key @ [dquote] @ '':['' @
             join sep (map (\<lambda>x. [dquote] @ x @ [dquote]) xs) @ '']}'' @ post) =
           Inr [(key, PList xs)]))"
proof (intro conjI impI)
  show "parse_response (''{'' @ [dquote] @ ''a'' @ [dquote] @ '':null,'' @ [dquote] @ ''b'' @ [dquote] @
      '':'' @ [dquote] @ ''3'' @ [dquote] @ '','' @ [dquote] @ ''c'' @ [dquote] @ '':['' @
      [dquote] @ ''x'' @ [dquote] @ '','' @ [dquote] @ ''y'' @ [dquote] @ '']}'') =
     Inr [(''a'', PNone), (''b'', PInt 3), (''c'', PList [''x'', ''y''])]"
    by (simp add: parse_response_def decode_value_def match_quoted_digits_def py_int_def
        max_str_digits_def slice_1_m1_def decimal_def digit_val_def match_pair_def
        match_value_def is_word_def is_digit_def not_bracket_def not_dquote_def)
next
  assume "list_all (\<lambda>f. word_key (fst f) \<and> well_formed_value (snd f)) fs \<and>
    dquote \<notin> set fsep \<and> dquote \<notin> set post"
  then show g: "parse_response (render_line fsep fs @ post) = Inr (spec_record fs)"
    by (intro parse_render_line) simp_all
  assume "distinct (map fst fs)"
  with g show "parse_response (render_line fsep fs @ post) =
      Inr (map (\<lambda>f. (fst f, spec_decode (snd f))) fs)"
    by (simp add: spec_record_distinct)
next
  assume h: "word_key key \<and> dquote \<notin> set post"
  have one: "parse_response (render_line [] [(key, t)] @ post) = Inr [(key, spec_decode t)]"
    if "well_formed_value t" for t
    using h that parse_render_line [of "[(key, t)]" "[]" post] by (simp add: spec_record_def)
  show "parse_response (''{'' @ [dquote] @ key @ [dquote] @ '':null}'' @ post) = Inr [(key, PNone)]"
    using one [of Null] by (simp add: render_line_def render_field_def)
  {
    assume "ds \<noteq> [] \<and> list_all is_digit ds \<and> length ds \<le> max_str_digits"
    moreover from this have "dquote \<notin> set ds"
      using not_digit_dquote by (auto simp: list_all_iff)
    ultimately show "parse_response (''{'' @ [dquote] @ key @ [dquote] @ '':'' @ [dquote] @ ds @
        [dquote] @ ''}'' @ post) = Inr [(key, PInt (int (decimal ds)))]"
      using one [of "Quoted ds"] by (simp add: render_line_def render_field_def)
  }
  {
    assume n: "length (str_nat n) \<le> max_str_digits"
    have d: "str_nat n \<noteq> [] \<and> list_all is_digit (str_nat n) \<and> decimal (str_nat n) = n"
      by (rule str_nat_digits)
    then have "dquote \<notin> set (str_nat n)"
      using not_digit_dquote by (auto simp: list_all_iff)
    with n d show "parse_response (''{'' @ [dquote] @ key @ [dquote] @ '':'' @ [dquote] @
        str_nat n @ [dquote] @ ''}'' @ post) = Inr [(key, PInt (int n))]"
      using one [of "Quoted (str_nat n)"] by (simp add: render_line_def render_field_def)
  }
  {
    assume "dquote \<notin> set sep \<and> list_all not_bracket sep \<and>
       list_all (\<lambda>x. dquote \<notin> set x \<and> list_all not_bracket x) xs"
    then show "parse_response (''{'' @ [dquote] @ key @ [dquote] @ '':['' @
        join sep (map (\<lambda>x. [dquote] @ x @ [dquote]) xs) @ '']}'' @ post) = Inr [(key, PList xs)]"
      using one [of "Items sep xs"] by (simp add: render_line_def render_field_def)
  }
qed

theorem parse_response_follows_grammar_witness:
  "list_all (\<lambda>f. word_key (fst f) \<and> well_formed_value (snd f))
     [(''a'', Null), (''b'', Quoted ''3''), (''c'', Items '','' [''x'', ''y''])] \<and>
   distinct (map fst [(''a'', Null), (''b'', Quoted ''3''), (''c'', Items '','' [''x'', ''y''])]) \<and>
   render_line '','' [(''a'', Null), (''b'', Quoted ''3''), (''c'', Items '','' [''x'', ''y''])] =
     ''{'' @ [dquote] @ ''a'' @ [dquote] @ '':null,'' @ [dquote] @ ''b'' @ [dquote] @
      '':'' @ [dquote] @ ''3'' @ [dquote] @ '','' @ [dquote] @ ''c'' @ [dquote] @ '':['' @
      [dquote] @ ''x'' @ [dquote] @ '','' @ [dquote] @ ''y'' @ [dquote] @ '']}'' \<and>
   parse_response
     (render_line '','' [(''a'', Null), (''b'', Quoted ''3''), (''c'', Items '','' [''x'', ''y''])] @
      [newline]) =
     Inr [(''a'', PNone), (''b'', PInt 3), (''c'', PList [''x'', ''y''])] \<and>
   parse_response (''{'' @ [dquote] @ ''goals'' @ [dquote] @ '':null}'' @ [newline]) =
     Inr [(''goals'', PNone)] \<and>
   parse_response (''{'' @ [dquote] @ ''goals'' @ [dquote] @ '':'' @ [dquote] @ ''007'' @ [dquote] @
       ''}'' @ [newline]) = Inr [(''goals'', PInt 7)] \<and>
   parse_response (''{'' @ [dquote] @ ''goals'' @ [dquote] @ '':'' @ [dquote] @ ''42'' @ [dquote] @
       ''}'' @ [newline]) = Inr [(''goals'', PInt 42)] \<and>
   parse_response (''{'' @ [dquote] @ ''goals'' @ [dquote] @ '':['' @ [dquote] @ ''x'' @ [dquote] @
       '', '' @ [dquote] @ ''y z'' @ [dquote] @ '']}'' @ [newline]) =
     Inr [(''goals'', PList [''x'', ''y z''])]"
proof -
  let ?fs = "[(''a'', Null), (''b'', Quoted ''3''), (''c'', Items '','' [''x'', ''y''])]"
  have wf: "list_all (\<lambda>f. word_key (fst f) \<and> well_formed_value (snd f)) ?fs \<and>
      dquote \<notin> set '','' \<and> dquote \<notin> set [newline]"
    by (simp add: word_key_def is_word_def is_digit_def not_bracket_def max_str_digits_def)
  have di: "distinct (map fst ?fs)" by simp
  have rl: "render_line '','' ?fs =
     ''{'' @ [dquote] @ ''a'' @ [dquote] @ '':null,'' @ [dquote] @ ''b'' @ [dquote] @
      '':'' @ [dquote] @ ''3'' @ [dquote] @ '','' @ [dquote] @ ''c'' @ [dquote] @ '':['' @
      [dquote] @ ''x'' @ [dquote] @ '','' @ [dquote] @ ''y'' @ [dquote] @ '']}''"
    by (simp add: render_line_def render_field_def)
  have key: "word_key ''goals'' \<and> dquote \<notin> set [newline]"
    by (simp add: word_key_def is_word_def)
  have ds: "''007'' \<noteq> [] \<and> list_all is_digit ''007'' \<and> length ''007'' \<le> max_str_digits"
    by (simp add: is_digit_def max_str_digits_def)
  have dv: "decimal ''007'' = 7" by (simp add: decimal_def digit_val_def)
  have sn: "str_nat 42 = ''42''" by (simp add: str_nat.simps hex_digit_def)
  have nl: "length (str_nat 42) \<le> max_str_digits" by (simp add: sn max_str_digits_def)
  have xs: "dquote \<notin> set '', '' \<and> list_all not_bracket '', '' \<and>
      list_all (\<lambda>x. dquote \<notin> set x \<and> list_all not_bracket x) [''x'', ''y z'']"
    by (simp add: not_bracket_def)
  note t = parse_response_follows_grammar
    [of ?fs "'',''" "[newline]" "''goals''" "''007''" 42 "'', ''" "[''x'', ''y z'']"]
  from t wf di have r1: "parse_response (render_line '','' ?fs @ [newline]) =
      Inr (map (\<lambda>f. (fst f, spec_decode (snd f))) ?fs)"
    by blast
  have sd: "map (\<lambda>f. (fst f, spec_decode (snd f))) ?fs =
      [(''a'', PNone), (''b'', PInt 3), (''c'', PList [''x'', ''y''])]"
    by (simp add: is_digit_def decimal_def digit_val_def)
  from t key have r2: "parse_response (''{'' @ [dquote] @ ''goals'' @ [dquote] @ '':null}'' @ [newline]) =
     Inr [(''goals'', PNone)]"
    by blast
  from t key ds have r3: "parse_response (''{'' @ [dquote] @ ''goals'' @ [dquote] @ '':'' @ [dquote] @
      ''007'' @ [dquote] @ ''}'' @ [newline]) = Inr [(''goals'', PInt (int (decimal ''007'')))]"
    by blast
  from t key nl have r4: "parse_response (''{'' @ [dquote] @ ''goals'' @ [dquote] @ '':'' @ [dquote] @
      str_nat 42 @ [dquote] @ ''}'' @ [newline]) = Inr [(''goals'', PInt (int 42))]"
    by blast
  from t key xs have r5: "parse_response (''{'' @ [dquote] @ ''goals'' @ [dquote] @ '':['' @
      join '', '' (map (\<lambda>x. [dquote] @ x @ [dquote]) [''x'', ''y z'']) @ '']}'' @ [newline]) =
      Inr [(''goals'', PList [''x'', ''y z''])]"
    by blast
  have w: "list_all (\<lambda>f. word_key (fst f) \<and> well_formed_value (snd f)) ?fs" using wf by blast
  from r3 have r3': "parse_response (''{'' @ [dquote] @ ''goals'' @ [dquote] @ '':'' @ [dquote] @
      ''007'' @ [dquote] @ ''}'' @ [newline]) = Inr [(''goals'', PInt 7)]"
    by (simp only: dv) simp
  from r4 have r4': "parse_response (''{'' @ [dquote] @ ''goals'' @ [dquote] @ '':'' @ [dquote] @
      ''42'' @ [dquote] @ ''}'' @ [newline]) = Inr [(''goals'', PInt 42)]"
    by (simp only: sn) simp
  from r5 have r5': "parse_response (''{'' @ [dquote] @ ''goals'' @ [dquote] @ '':['' @ [dquote] @
      ''x'' @ [dquote] @ '', '' @ [dquote] @ ''y z'' @ [dquote] @ '']}'' @ [newline]) =
      Inr [(''goals'', PList [''x'', ''y z''])]"
    by simp
  from r1 have r1': "parse_response (render_line '','' ?fs @ [newline]) =
      Inr [(''a'', PNone), (''b'', PInt 3), (''c'', PList [''x'', ''y''])]"
    by (simp only: sd)
  show ?thesis by (intro conjI w di rl r1' r2 r3' r4' r5')
qed

subsection \<open>The loop of collect\<close>

lemma collect_loop_skip:
  "0 < q \<Longrightarrow> \<not> is_candidate line \<Longrightarrow>
   collect_loop (line # rest) q result = collect_loop rest q result"
  by simp

lemma collect_loop_candidate:
  "0 < q \<Longrightarrow> is_candidate line \<Longrightarrow> parse_response line = Inr r \<Longrightarrow>
   collect_loop (line # rest) q result = collect_loop rest (q - 1) (result @ [r])"
  by (auto simp: is_candidate_def)

lemma collect_loop_done:
  "q \<le> 0 \<Longrightarrow>
   map_option (\<lambda>(r, q', rest'). (r, q')) (collect_loop reads q result) = Some (Inr result, q)"
  by (cases reads) simp_all

lemma collect_loop_delete:
  assumes "\<not> is_candidate line"
  shows "map_option (\<lambda>(r, q', rest'). (r, q')) (collect_loop (pre @ line # rest) q result) =
         map_option (\<lambda>(r, q', rest'). (r, q')) (collect_loop (pre @ rest) q result)"
proof (induction pre arbitrary: q result)
  case Nil
  show ?case
  proof (cases "0 < q")
    case True
    with assms show ?thesis by (simp add: collect_loop_skip)
  next
    case False
    then have "q \<le> 0" by simp
    then show ?thesis by (simp only: append_Nil collect_loop_done)
  qed
next
  case (Cons p ps)
  show ?case
  proof (cases "0 < q")
    case True
    show ?thesis
    proof (cases "is_candidate p")
      case False
      with True Cons show ?thesis by (simp add: collect_loop_skip del: collect_loop.simps)
    next
      case cand: True
      show ?thesis
      proof (cases "parse_response p")
        case (Inl e)
        with True cand show ?thesis by (auto simp: is_candidate_def)
      next
        case (Inr r)
        with True cand Cons show ?thesis
          by (simp add: collect_loop_candidate del: collect_loop.simps)
      qed
    qed
  next
    case False
    then have "q \<le> 0" by simp
    then show ?thesis by (simp only: collect_loop_done)
  qed
qed

lemma collect_outcome:
  "\<not> closed c \<Longrightarrow>
   map_option (\<lambda>(r, c'). (r, queries c')) (collect c) =
   map_option (\<lambda>(r, q', rest'). (r, q')) (collect_loop (log c) (queries c) [])"
  by (cases "collect_loop (log c) (queries c) []") (auto simp: collect_def)

text \<open>
  C4: a line that does not start with \<^verbatim>\<open>{\<close> (the empty read included) is passed over: the
  loop goes on with the counter and the list of records it had. So wherever such a line
  stands in the log, \<^verbatim>\<open>collect\<close> on an open connection has the same outcome (the records
  returned, or the exception, or no return at all) and leaves the same counter as on the log
  without the line.
\<close>

theorem noncandidate_line_ignored:
  "\<not> is_candidate line \<longrightarrow>
     (0 < q \<longrightarrow> collect_loop (line # rest) q result = collect_loop rest q result) \<and>
     (\<not> closed c \<and> log c = pre @ line # rest \<longrightarrow>
        map_option (\<lambda>(r, c'). (r, queries c')) (collect c) =
        map_option (\<lambda>(r, c'). (r, queries c')) (collect (c\<lparr>log := pre @ rest\<rparr>)))"
proof (intro impI conjI)
  assume "\<not> is_candidate line" and "0 < q"
  then show "collect_loop (line # rest) q result = collect_loop rest q result"
    by (rule collect_loop_skip [rotated])
next
  assume n: "\<not> is_candidate line" and c: "\<not> closed c \<and> log c = pre @ line # rest"
  have "map_option (\<lambda>(r, c'). (r, queries c')) (collect c) =
        map_option (\<lambda>(r, q', rest'). (r, q')) (collect_loop (pre @ line # rest) (queries c) [])"
    using c collect_outcome [of c] by simp
  also have "\<dots> = map_option (\<lambda>(r, q', rest'). (r, q')) (collect_loop (pre @ rest) (queries c) [])"
    using n by (rule collect_loop_delete)
  also have "\<dots> = map_option (\<lambda>(r, c'). (r, queries c')) (collect (c\<lparr>log := pre @ rest\<rparr>))"
    using c collect_outcome [of "c\<lparr>log := pre @ rest\<rparr>"] by simp
  finally show "map_option (\<lambda>(r, c'). (r, queries c')) (collect c) =
        map_option (\<lambda>(r, c'). (r, queries c')) (collect (c\<lparr>log := pre @ rest\<rparr>))" .
qed

theorem noncandidate_line_ignored_witness:
  "\<not> is_candidate ''Lean (version 3.30.0)'' \<and>
   collect_loop [''Lean (version 3.30.0)'', ''{}''] 1 [] = collect_loop [''{}''] 1 [] \<and>
   collect_loop [''{}''] 1 [] = Some (Inr [[]], 0, []) \<and>
   map_option (\<lambda>(r, c'). (r, queries c'))
     (collect ((sample_connection [''{}'', ''Lean (version 3.30.0)'', ''{}''])\<lparr>queries := 2\<rparr>)) =
   map_option (\<lambda>(r, c'). (r, queries c'))
     (collect ((sample_connection [''{}'', ''{}''])\<lparr>queries := 2\<rparr>)) \<and>
   map_option (\<lambda>(r, c'). (r, queries c'))
     (collect ((sample_connection [''{}'', ''{}''])\<lparr>queries := 2\<rparr>)) = Some (Inr [[], []], 0)"
proof -
  let ?c = "(sample_connection [''{}'', ''Lean (version 3.30.0)'', ''{}''])\<lparr>queries := 2\<rparr>"
  have a: "\<not> is_candidate ''Lean (version 3.30.0)''"
    by (simp add: is_candidate_def)
  have b: "\<not> closed ?c \<and> log ?c = [''{}''] @ ''Lean (version 3.30.0)'' # [''{}'']"
    by (simp add: sample_connection_def)
  have p: "parse_response ''{}'' = Inr []"
    by (simp add: parse_response_def match_pair_def)
  have e: "?c\<lparr>log := [''{}''] @ [''{}'']\<rparr> = (sample_connection [''{}'', ''{}''])\<lparr>queries := 2\<rparr>"
    by (simp add: sample_connection_def)
  have d: "collect ((sample_connection [''{}'', ''{}''])\<lparr>queries := 2\<rparr>) =
     Some (Inr [[], []], (sample_connection [''{}'', ''{}''])\<lparr>queries := 0, log := []\<rparr>)"
    by (simp add: collect_def sample_connection_def is_candidate_def p)
  have f: "collect_loop [''{}''] 1 [] = Some (Inr [[]], 0, [])"
    by (simp add: is_candidate_def p)
  from noncandidate_line_ignored [of "''Lean (version 3.30.0)''" 1 "[''{}'']" "[]" ?c "[''{}'']"] a b
  have "collect_loop [''Lean (version 3.30.0)'', ''{}''] 1 [] = collect_loop [''{}''] 1 []"
    and "map_option (\<lambda>(r, c'). (r, queries c')) (collect ?c) =
         map_option (\<lambda>(r, c'). (r, queries c')) (collect (?c\<lparr>log := [''{}''] @ [''{}'']\<rparr>))"
    by simp_all
  then show ?thesis using a f by (simp only: e d) simp
qed

lemma has_pair_iff: "has_pair s \<longleftrightarrow> (\<exists>t. suffix t s \<and> match_pair t \<noteq> None)"
proof (induction s)
  case Nil
  then show ?case by (simp add: match_pair_def)
next
  case (Cons c cs)
  show ?case
  proof
    assume "has_pair (c # cs)"
    then consider "match_pair (c # cs) \<noteq> None" | "has_pair cs" by auto
    then show "\<exists>t. suffix t (c # cs) \<and> match_pair t \<noteq> None"
    proof cases
      case 1
      then show ?thesis by blast
    next
      case 2
      with Cons obtain t where "suffix t cs" "match_pair t \<noteq> None" by blast
      then show ?thesis by (blast intro: suffix_ConsI)
    qed
  next
    assume "\<exists>t. suffix t (c # cs) \<and> match_pair t \<noteq> None"
    then obtain t where t: "suffix t (c # cs)" "match_pair t \<noteq> None" by blast
    from t(1) have "t = c # cs \<or> suffix t cs" by (simp add: suffix_Cons)
    with t(2) Cons show "has_pair (c # cs)" by auto
  qed
qed

text \<open>
  C6: a line that starts with \<^verbatim>\<open>{\<close> and in which the pattern of line 114 matches nowhere
  decodes to the empty dictionary, without an exception, and the loop of \<^verbatim>\<open>collect\<close> takes
  it as an answer: it appends the empty dictionary and goes on with the counter one lower.
\<close>

theorem malformed_candidate_line:
  "is_candidate line \<and> \<not> has_pair line \<longrightarrow>
     parse_response line = Inr [] \<and>
     (0 < q \<longrightarrow>
        collect_loop (line # rest) q result = collect_loop rest (q - 1) (result @ [[]]))"
proof (intro impI conjI)
  assume h: "is_candidate line \<and> \<not> has_pair line"
  then have "findall_pairs line = []"
    by (simp add: findall_pairs_empty)
  then show p: "parse_response line = Inr []"
    by (simp add: parse_response_def)
  assume "0 < q"
  with h p show "collect_loop (line # rest) q result = collect_loop rest (q - 1) (result @ [[]])"
    by (simp add: collect_loop_candidate del: collect_loop.simps)
qed

theorem malformed_candidate_line_witness:
  "is_candidate (''{'' @ [dquote] @ ''error'' @ [dquote] @ '': oops}'') \<and>
   \<not> has_pair (''{'' @ [dquote] @ ''error'' @ [dquote] @ '': oops}'') \<and>
   parse_response (''{'' @ [dquote] @ ''error'' @ [dquote] @ '': oops}'') = Inr [] \<and>
   collect_loop [''{'' @ [dquote] @ ''error'' @ [dquote] @ '': oops}''] 1 [] =
     Some (Inr [[]], 0, [])"
proof -
  let ?line = "''{'' @ [dquote] @ ''error'' @ [dquote] @ '': oops}''"
  have a: "is_candidate ?line \<and> \<not> has_pair ?line"
    by (simp add: is_candidate_def match_pair_def match_value_def is_word_def)
  from malformed_candidate_line [of ?line 1 "[]" "[]"] a
  have "parse_response ?line = Inr []"
    and "collect_loop [?line] 1 [] = collect_loop [] (1 - 1) ([] @ [[]])"
    by simp_all
  then show ?thesis using a by simp
qed

subsection \<open>Commands, then collect\<close>










subsection \<open>What the public methods keep\<close>

lemma is_candidate_nonempty: "is_candidate line \<Longrightarrow> line \<noteq> []"
  by (auto simp: is_candidate_def)

lemma collect_loop_nonneg:
  "0 \<le> q \<Longrightarrow> collect_loop reads q result = Some (r, q', rest) \<Longrightarrow> 0 \<le> q'"
proof (induction reads arbitrary: q result)
  case Nil
  then show ?case by (simp split: if_splits)
next
  case (Cons line reads)
  show ?case
  proof (cases "0 < q")
    case False
    with Cons.prems show ?thesis by simp
  next
    case True
    show ?thesis
    proof (cases "is_candidate line")
      case False
      with True Cons.prems have "collect_loop reads q result = Some (r, q', rest)"
        by (simp add: collect_loop_skip del: collect_loop.simps)
      with Cons.IH [of q result] Cons.prems(1) show ?thesis by simp
    next
      case cand: True
      show ?thesis
      proof (cases "parse_response line")
        case (Inl e)
        with True cand Cons.prems is_candidate_nonempty [OF cand] show ?thesis by simp
      next
        case (Inr x)
        with True cand Cons.prems
        have "collect_loop reads (q - 1) (result @ [x]) = Some (r, q', rest)"
          by (simp add: collect_loop_candidate del: collect_loop.simps)
        with Cons.IH [of "q - 1" "result @ [x]"] True show ?thesis by simp
      qed
    qed
  qed
qed

lemma issue_effect:
  "closed (snd (issue cmd c)) = closed c \<and>
   queries (snd (issue cmd c)) = (if closed c then queries c else queries c + 1) \<and>
   file_exists (snd (issue cmd c)) = file_exists c \<and>
   file_open (snd (issue cmd c)) = file_open c \<and>
   EXIT (snd (issue cmd c)) = EXIT c \<and>
   set (runs c) \<subseteq> set (runs (snd (issue cmd c)))"
  by (cases cmd)
    (auto simp add: init_search_def run_tac_def clear_search_def send_query_def Let_def
      split: sum.splits)

lemma collect_effect:
  assumes "collect c = Some (r, c')"
  shows "closed c' = closed c \<and> file_exists c' = file_exists c \<and> file_open c' = file_open c \<and>
         EXIT c' = EXIT c \<and> runs c' = runs c \<and> (0 \<le> queries c \<longrightarrow> 0 \<le> queries c')"
proof (cases "closed c")
  case True
  with assms show ?thesis by (simp add: collect_def)
next
  case False
  with assms obtain q' rest where l: "collect_loop (log c) (queries c) [] = Some (r, q', rest)"
    and c': "c' = c\<lparr>queries := q', log := rest\<rparr>"
    by (auto simp: collect_def split: option.splits)
  from l have "0 \<le> queries c \<longrightarrow> 0 \<le> q'" using collect_loop_nonneg by blast
  with c' show ?thesis by simp
qed

lemma perform_queries:
  assumes "0 \<le> queries c" and "perform f c = Some (r, c')"
  shows "0 \<le> queries c'"
proof (cases f)
  case (Command cmd)
  have "queries (snd (issue cmd c)) = (if closed c then queries c else queries c + 1)"
    using issue_effect [of cmd c] by blast
  moreover from assms(2) Command have "c' = snd (issue cmd c)"
    by (cases "issue cmd c" rule: returns_none.cases) auto
  ultimately show ?thesis using assms(1) by simp
next
  case Collect
  with assms(2) obtain r' where "collect c = Some (r', c')"
    by (auto split: option.splits sum.splits)
  with assms(1) show ?thesis using collect_effect by blast
next
  case Close
  with assms show ?thesis
    by (auto simp: close_def split: if_splits)
qed

lemma perform_closed_inv:
  assumes "closed_inv c" and "perform f c = Some (r, c')"
  shows "closed_inv c'"
proof (cases f)
  case (Command cmd)
  from assms(2) Command have c': "c' = snd (issue cmd c)"
    by (cases "issue cmd c" rule: returns_none.cases) auto
  from issue_effect [of cmd c] have
    "closed c' = closed c" "file_exists c' = file_exists c" "file_open c' = file_open c"
    "EXIT c' = EXIT c" "set (runs c) \<subseteq> set (runs c')"
    unfolding c' by blast+
  with assms(1) show ?thesis by (auto simp: closed_inv_def split: if_splits)
next
  case Collect
  with assms(2) obtain r' where "collect c = Some (r', c')"
    by (auto split: option.splits sum.splits)
  from collect_effect [OF this] assms(1) show ?thesis by (simp add: closed_inv_def)
next
  case Close
  with assms show ?thesis
    by (auto simp: close_def closed_inv_def split: if_splits)
qed

lemma exec_invariant:
  assumes step: "\<And>f c r c'. P c \<Longrightarrow> perform f c = Some (r, c') \<Longrightarrow> P c'"
  shows "P c \<Longrightarrow> exec b c = Some (e, c') \<Longrightarrow> P c'"
proof (induction b arbitrary: c)
  case Return
  then show ?case by simp
next
  case (Raise x)
  then show ?case by simp
next
  case (Call f k)
  from Call.prems(2) obtain r c1 where p: "perform f c = Some (r, c1)"
    and e: "exec (k r) c1 = Some (e, c')"
    by (auto split: option.splits)
  from step [OF Call.prems(1) p] have "P c1" .
  with Call.IH [of "k r" c1] e show ?case by blast
qed

text \<open>
  C8: the counter of outstanding queries is never negative. The constructor leaves it at 0;
  a command on an open connection adds one; and no call of a public method (a command,
  \<^verbatim>\<open>collect\<close>, \<^verbatim>\<open>close\<close>), whether it returns or raises, takes a counter that is not
  negative to one that is. So it is not negative after any code that uses a new connection
  through its public methods.
\<close>

theorem queries_never_negative:
  "(snd (LeanGymConnection n_conns path tmp run reads) = Inr c0 \<longrightarrow> queries c0 = 0) \<and>
   (\<not> closed c \<longrightarrow> queries (snd (issue cmd c)) = queries c + 1) \<and>
   (0 \<le> queries c \<and> perform f c = Some (r, c') \<longrightarrow> 0 \<le> queries c') \<and>
   (snd (LeanGymConnection n_conns path tmp run reads) = Inr c0 \<and>
    exec b c0 = Some (e, c1) \<longrightarrow> 0 \<le> queries c1)"
proof (intro conjI impI)
  assume "snd (LeanGymConnection n_conns path tmp run reads) = Inr c0"
  then show "queries c0 = 0"
    by (auto simp: LeanGymConnection_def Let_def split: sum.splits launch.splits)
next
  assume "\<not> closed c"
  then show "queries (snd (issue cmd c)) = queries c + 1"
    using issue_effect [of cmd c] by simp
next
  assume "0 \<le> queries c \<and> perform f c = Some (r, c')"
  then show "0 \<le> queries c'" using perform_queries by blast
next
  assume h: "snd (LeanGymConnection n_conns path tmp run reads) = Inr c0 \<and>
    exec b c0 = Some (e, c1)"
  then have "queries c0 = 0"
    by (auto simp: LeanGymConnection_def Let_def split: sum.splits launch.splits)
  then have "0 \<le> queries c0" by simp
  moreover from h have "exec b c0 = Some (e, c1)" by simp
  ultimately show "0 \<le> queries c1"
    by (rule exec_invariant [where P = "\<lambda>c. 0 \<le> queries c", rotated]) (rule perform_queries)
qed

theorem queries_never_negative_witness:
  "snd (LeanGymConnection 0 ''lean-gym'' ''/tmp/log'' (\<lambda>p. Started) [''Lean'', ''{}'', ''{}'']) =
     Inr (sample_connection [''Lean'', ''{}'', ''{}'']) \<and>
   queries (sample_connection [''Lean'', ''{}'', ''{}'']) = 0 \<and>
   queries (snd (issue (ClearSearch 7) (sample_connection [''Lean'', ''{}'', ''{}'']))) = 1 \<and>
   perform (Command (ClearSearch 7)) (sample_connection [''Lean'', ''{}'', ''{}'']) =
     Some (Inr None, snd (issue (ClearSearch 7) (sample_connection [''Lean'', ''{}'', ''{}'']))) \<and>
   0 \<le> queries (snd (issue (ClearSearch 7) (sample_connection [''Lean'', ''{}'', ''{}'']))) \<and>
   map_option (\<lambda>(e, c). (e, queries c))
     (exec (Call (Command (ClearSearch 7)) (\<lambda>r. Call Collect (\<lambda>r. Call Collect (\<lambda>r. Return))))
        (sample_connection [''Lean'', ''{}'', ''{}''])) = Some (None, 0) \<and>
   0 \<le> queries (snd (the
     (exec (Call (Command (ClearSearch 7)) (\<lambda>r. Call Collect (\<lambda>r. Call Collect (\<lambda>r. Return))))
        (sample_connection [''Lean'', ''{}'', ''{}'']))))"
proof -
  let ?s = "sample_connection [''Lean'', ''{}'', ''{}'']"
  let ?b = "Call (Command (ClearSearch 7)) (\<lambda>r. Call Collect (\<lambda>r. Call Collect (\<lambda>r. Return)))"
  have a: "snd (LeanGymConnection 0 ''lean-gym'' ''/tmp/log'' (\<lambda>p. Started) [''Lean'', ''{}'', ''{}'']) = Inr ?s"
    by (simp add: constructor_sample)
  have o: "\<not> closed ?s" by (simp add: sample_connection_def)
  have p: "parse_response ''{}'' = Inr []"
    by (simp add: parse_response_def match_pair_def)
  have x: "map_option (\<lambda>(e, c). (e, queries c)) (exec ?b ?s) = Some (None, 0)"
    by (simp add: clear_search_def str_int_def in_limit_def max_str_digits_def int_text_def
        str_nat.simps hex_digit_def send_query_def collect_def sample_connection_def
        is_candidate_def p)
  then obtain c1 where c1: "exec ?b ?s = Some (None, c1)" by auto
  have z: "0 \<le> queries ?s" by (simp add: sample_connection_def)
  have y: "perform (Command (ClearSearch 7)) ?s = Some (Inr None, snd (issue (ClearSearch 7) ?s))"
    by (simp add: clear_search_def str_int_def in_limit_def max_str_digits_def int_text_def
        str_nat.simps hex_digit_def sample_connection_def)
  from queries_never_negative
    [of 0 "''lean-gym''" "''/tmp/log''" "\<lambda>p. Started" "[''Lean'', ''{}'', ''{}'']" ?s ?s "ClearSearch 7"
      "Command (ClearSearch 7)" "Inr None" "snd (issue (ClearSearch 7) ?s)" ?b None c1] a o c1 y z
  have "queries ?s = 0" and "queries (snd (issue (ClearSearch 7) ?s)) = queries ?s + 1"
    and "0 \<le> queries (snd (issue (ClearSearch 7) ?s))"
    and "0 \<le> queries c1"
    by blast+
  with a x y c1 show ?thesis by simp
qed

subsection \<open>The context manager\<close>

text \<open>
  C9: when the constructor has made the connection and the body of the \<^verbatim>\<open>with\<close>
  statement ends, by returning or by an exception, \<^verbatim>\<open>invoke_lean\<close> ends too, and the
  connection is then closed, its log file closed and removed, and the command that ends the
  session sent. The exception that leaves the statement is the body's, unless the body had
  closed the connection itself: then it is the \<^verbatim>\<open>ValueError\<close> of the second \<^verbatim>\<open>close\<close>.
\<close>

theorem invoke_lean_closes:
  "(snd (LeanGymConnection n_conns path tmp run reads) = Inr c0 \<and>
    exec body c0 = Some (r, c1) \<longrightarrow>
      (\<exists>c. invoke_lean n_conns path tmp run reads body =
              Some (if closed c1 then Some closed_error else r, Some c) \<and>
           closed c \<and> \<not> file_exists c \<and> \<not> file_open c \<and> EXIT c \<in> set (runs c))) \<and>
   (invoke_lean n_conns path tmp run reads body = Some (e, Some c) \<longrightarrow>
      closed c \<and> \<not> file_exists c \<and> \<not> file_open c \<and> EXIT c \<in> set (runs c))"
proof -
  have main: "\<exists>c. invoke_lean n_conns path tmp run reads body =
              Some (if closed c1 then Some closed_error else r, Some c) \<and>
           closed c \<and> \<not> file_exists c \<and> \<not> file_open c \<and> EXIT c \<in> set (runs c)"
    if k: "snd (LeanGymConnection n_conns path tmp run reads) = Inr c0"
      and x: "exec body c0 = Some (r, c1)" for c0 r c1
  proof -
    from k have "\<not> closed c0"
      by (auto simp: LeanGymConnection_def Let_def split: sum.splits launch.splits)
    then have "closed_inv c0" by (simp add: closed_inv_def)
    then have inv: "closed_inv c1" using x
      by (rule exec_invariant [where P = closed_inv, rotated]) (rule perform_closed_inv)
    show ?thesis
    proof (cases "closed c1")
      case True
      with inv have "\<not> file_exists c1 \<and> \<not> file_open c1 \<and> EXIT c1 \<in> set (runs c1)"
        by (simp add: closed_inv_def)
      moreover from True k x have "invoke_lean n_conns path tmp run reads body =
          Some (Some closed_error, Some c1)"
        by (simp add: invoke_lean_def close_def)
      ultimately show ?thesis using True by simp
    next
      case False
      with k x show ?thesis
        by (simp add: invoke_lean_def close_def)
    qed
  qed
  have second: "closed c \<and> \<not> file_exists c \<and> \<not> file_open c \<and> EXIT c \<in> set (runs c)"
    if i: "invoke_lean n_conns path tmp run reads body = Some (e, Some c)"
  proof -
    from i obtain c0 where k: "snd (LeanGymConnection n_conns path tmp run reads) = Inr c0"
      by (auto simp: invoke_lean_def split: sum.splits)
    with i obtain r c1 where x: "exec body c0 = Some (r, c1)"
      by (auto simp: invoke_lean_def split: option.splits)
    from main [OF k x] i show ?thesis by auto
  qed
  from main second show ?thesis by blast
qed

theorem invoke_lean_closes_witness:
  "map_option (\<lambda>(e, c). (e, map_option (\<lambda>c. (closed c, file_exists c, file_open c)) c))
     (invoke_lean 0 ''lean-gym'' ''/tmp/log'' (\<lambda>p. Started) [''{}'']
        (Call (Command (InitSearch ''foo'' [])) (\<lambda>r. Call Collect (\<lambda>r. Return)))) =
     Some (None, Some (True, False, False)) \<and>
   map_option (\<lambda>(e, c). (e, map_option (\<lambda>c. (closed c, file_exists c, file_open c)) c))
     (invoke_lean 0 ''lean-gym'' ''/tmp/log'' (\<lambda>p. Started) [''{}'']
        (Call (Command (ClearSearch 1)) (\<lambda>r. Raise (OSError ''boom'')))) =
     Some (Some (OSError ''boom''), Some (True, False, False)) \<and>
   map_option (\<lambda>(e, c). (e, map_option (\<lambda>c. (closed c, file_exists c, file_open c)) c))
     (invoke_lean 0 ''lean-gym'' ''/tmp/log'' (\<lambda>p. Started) [''{}''] (Call Close (\<lambda>r. Return))) =
     Some (Some closed_error, Some (True, False, False))"
proof -
  let ?s = "sample_connection [''{}'']"
  let ?b1 = "Call (Command (InitSearch ''foo'' [])) (\<lambda>r. Call Collect (\<lambda>r. Return))"
  let ?b2 = "Call (Command (ClearSearch 1)) (\<lambda>r. Raise (OSError ''boom''))"
  let ?b3 = "Call Close (\<lambda>r. Return)"
  have k: "snd (LeanGymConnection 0 ''lean-gym'' ''/tmp/log'' (\<lambda>p. Started) [''{}'']) = Inr ?s"
    by (simp add: constructor_sample)
  have p: "parse_response ''{}'' = Inr []"
    by (simp add: parse_response_def match_pair_def)
  have "map_option (\<lambda>(e, c). (e, closed c)) (exec ?b1 ?s) = Some (None, False)"
    by (simp add: init_search_def send_query_def collect_def sample_connection_def
        is_candidate_def p)
  then obtain c1 where x1: "exec ?b1 ?s = Some (None, c1)" "\<not> closed c1" by auto
  have "map_option (\<lambda>(e, c). (e, closed c)) (exec ?b2 ?s) = Some (Some (OSError ''boom''), False)"
    by (simp add: clear_search_def str_int_def in_limit_def max_str_digits_def int_text_def
        str_nat.simps hex_digit_def send_query_def sample_connection_def)
  then obtain c2 where x2: "exec ?b2 ?s = Some (Some (OSError ''boom''), c2)" "\<not> closed c2"
    by auto
  have "map_option (\<lambda>(e, c). (e, closed c)) (exec ?b3 ?s) = Some (None, True)"
    by (simp add: close_def sample_connection_def)
  then obtain c3 where x3: "exec ?b3 ?s = Some (None, c3)" "closed c3" by auto
  from invoke_lean_closes
    [of 0 "''lean-gym''" "''/tmp/log''" "\<lambda>p. Started" "[''{}'']" ?s ?b1 None c1, THEN conjunct1] k x1
  have r1: "map_option (\<lambda>(e, c). (e, map_option (\<lambda>c. (closed c, file_exists c, file_open c)) c))
     (invoke_lean 0 ''lean-gym'' ''/tmp/log'' (\<lambda>p. Started) [''{}''] ?b1) =
     Some (None, Some (True, False, False))"
    by auto
  from invoke_lean_closes
    [of 0 "''lean-gym''" "''/tmp/log''" "\<lambda>p. Started" "[''{}'']" ?s ?b2 "Some (OSError ''boom'')" c2,
      THEN conjunct1] k x2
  have r2: "map_option (\<lambda>(e, c). (e, map_option (\<lambda>c. (closed c, file_exists c, file_open c)) c))
     (invoke_lean 0 ''lean-gym'' ''/tmp/log'' (\<lambda>p. Started) [''{}''] ?b2) =
     Some (Some (OSError ''boom''), Some (True, False, False))"
    by auto
  have "invoke_lean 0 ''lean-gym'' ''/tmp/log'' (\<lambda>p. Started) [''{}''] ?b3 =
      Some (Some closed_error, Some (snd (close ?s)))"
    by (simp add: invoke_lean_def constructor_sample close_def sample_connection_def)
  with invoke_lean_closes
    [of 0 "''lean-gym''" "''/tmp/log''" "\<lambda>p. Started" "[''{}'']" ?s ?b3 None c3 "Some closed_error"
      "snd (close ?s)", THEN conjunct2]
  have r3: "map_option (\<lambda>(e, c). (e, map_option (\<lambda>c. (closed c, file_exists c, file_open c)) c))
     (invoke_lean 0 ''lean-gym'' ''/tmp/log'' (\<lambda>p. Started) [''{}''] ?b3) =
     Some (Some closed_error, Some (True, False, False))"
    by auto
  from r1 r2 r3 show ?thesis by (intro conjI)
qed

end
